theory Spec2Isabelle
  imports Complex_Main "HOL-Library.Multiset"
begin

section \<open>Strings and characters\<close>

text \<open>
  A string of the program is a \<^typ>\<open>string\<close>: a list of code units, here the code units
  U+0000 to U+00FF. The character classes below are the ones the pattern engine of the
  language defines on that range: white space (which includes the line terminators and the
  no-break space U+00A0), line terminators, digits and word characters.
\<close>

definition code :: "char \<Rightarrow> nat" where
  "code c = of_char c"

definition is_line_terminator :: "char \<Rightarrow> bool" where
  "is_line_terminator c = (code c = 10 \<or> code c = 13)"

definition is_space :: "char \<Rightarrow> bool" where
  "is_space c = (code c = 9 \<or> code c = 10 \<or> code c = 11 \<or> code c = 12 \<or> code c = 13
     \<or> code c = 32 \<or> code c = 160)"

definition is_digit :: "char \<Rightarrow> bool" where
  "is_digit c = (48 \<le> code c \<and> code c \<le> 57)"

definition is_upper :: "char \<Rightarrow> bool" where
  "is_upper c = (65 \<le> code c \<and> code c \<le> 90)"

definition is_lower :: "char \<Rightarrow> bool" where
  "is_lower c = (97 \<le> code c \<and> code c \<le> 122)"

definition is_letter :: "char \<Rightarrow> bool" where
  "is_letter c = (is_upper c \<or> is_lower c)"

definition is_word :: "char \<Rightarrow> bool" where
  "is_word c = (is_letter c \<or> is_digit c \<or> code c = 95)"

text \<open>\<open>String.prototype.trim\<close>: white space is removed at both ends.\<close>

definition trim :: "string \<Rightarrow> string" where
  "trim s = rev (dropWhile is_space (rev (dropWhile is_space s)))"

text \<open>
  \<open>Canonicalize\<close> of the pattern engine, for a pattern without the unicode flag: a
  character is replaced by its upper-case form when that form is a single code unit and
  does not move a non-ASCII character into ASCII. On U+0000 to U+00FF this folds
  \<open>a\<close>-\<open>z\<close> and the accented lower-case letters U+00E0 to U+00FE (U+00F7 apart) onto the
  character 32 places below; every other character is its own canonical form.
\<close>

definition to_upper :: "char \<Rightarrow> char" where
  "to_upper c = (if is_lower c \<or> (224 \<le> code c \<and> code c \<le> 254 \<and> code c \<noteq> 247)
     then char_of (code c - 32) else c)"

definition canonicalize :: "bool \<Rightarrow> char \<Rightarrow> char" where
  "canonicalize ignoreCase c = (if ignoreCase then to_upper c else c)"

definition to_lower :: "char \<Rightarrow> char" where
  "to_lower c = (if is_upper c \<or> (192 \<le> code c \<and> code c \<le> 222 \<and> code c \<noteq> 215)
     then char_of (code c + 32) else c)"

section \<open>The pattern engine\<close>

text \<open>
  The regular expressions of the program, as the syntax tree of a pattern and a
  backtracking matcher over it. The matcher follows the engine of the language: a node
  maps a state (the character before the current position, the rest of the input, the
  captures so far) to the list of states in which it can end, most preferred first.
  \<open>Star True r\<close> is the greedy \<open>r*\<close>, \<open>Star False r\<close> the lazy \<open>r*?\<close>; an iteration
  that consumes no input is refused, and the captures of groups inside \<open>r\<close> are cleared at
  the start of each iteration.
\<close>

datatype re =
    Empty
  | Chr char
  | Cls "char \<Rightarrow> bool"
  | Seq re re
  | Alt re re
  | Star bool re
  | Grp nat re
  | Bref nat
  | Bol
  | Eol
  | Wordb

type_synonym captures = "nat \<Rightarrow> string option"

type_synonym mstate = "char option \<times> string \<times> captures"

fun groups :: "re \<Rightarrow> nat list" where
  "groups (Seq a b) = groups a @ groups b"
| "groups (Alt a b) = groups a @ groups b"
| "groups (Star g r) = groups r"
| "groups (Grp n r) = n # groups r"
| "groups _ = []"

definition clear_captures :: "nat list \<Rightarrow> captures \<Rightarrow> captures" where
  "clear_captures ns cs = (\<lambda>n. if n \<in> set ns then None else cs n)"

text \<open>
  A character class matches a character when one of its members has the same canonical
  form; the members with the canonical form of \<open>c\<close> are \<open>c\<close>, its upper-case and its
  lower-case form.
\<close>

definition cls_matches :: "bool \<Rightarrow> (char \<Rightarrow> bool) \<Rightarrow> char \<Rightarrow> bool" where
  "cls_matches ignoreCase p c =
     (p c \<or> (ignoreCase \<and> (p (to_upper c) \<or> p (to_lower c))))"

definition is_word_opt :: "char option \<Rightarrow> bool" where
  "is_word_opt c = (case c of None \<Rightarrow> False | Some x \<Rightarrow> is_word x)"

definition last_char :: "char option \<Rightarrow> string \<Rightarrow> char option" where
  "last_char prev consumed = (if consumed = [] then prev else Some (last consumed))"

function (sequential) matches :: "bool \<Rightarrow> re \<Rightarrow> mstate \<Rightarrow> mstate list" where
  "matches ic Empty st = [st]"
| "matches ic (Chr c) (prev, rest, cs) =
     (case rest of
        [] \<Rightarrow> []
      | x # xs \<Rightarrow> if canonicalize ic x = canonicalize ic c then [(Some x, xs, cs)] else [])"
| "matches ic (Cls p) (prev, rest, cs) =
     (case rest of
        [] \<Rightarrow> []
      | x # xs \<Rightarrow> if cls_matches ic p x then [(Some x, xs, cs)] else [])"
| "matches ic (Seq a b) st = concat (map (matches ic b) (matches ic a st))"
| "matches ic (Alt a b) st = matches ic a st @ matches ic b st"
| "matches ic (Star greedy r) (prev, rest, cs) =
     (let again = concat (map (\<lambda>st'. if length (fst (snd st')) < length rest
                                       then matches ic (Star greedy r) st' else [])
                              (matches ic r (prev, rest, clear_captures (groups r) cs)))
      in if greedy then again @ [(prev, rest, cs)] else (prev, rest, cs) # again)"
| "matches ic (Grp n r) (prev, rest, cs) =
     map (\<lambda>st'. (fst st', fst (snd st'),
                  (snd (snd st'))(n \<mapsto> take (length rest - length (fst (snd st'))) rest)))
         (matches ic r (prev, rest, cs))"
| "matches ic (Bref n) (prev, rest, cs) =
     (case cs n of
        None \<Rightarrow> [(prev, rest, cs)]
      | Some w \<Rightarrow>
          if length w \<le> length rest
             \<and> map (canonicalize ic) (take (length w) rest) = map (canonicalize ic) w
          then [(last_char prev (take (length w) rest), drop (length w) rest, cs)]
          else [])"
| "matches ic Bol (prev, rest, cs) = (if prev = None then [(prev, rest, cs)] else [])"
| "matches ic Eol (prev, rest, cs) = (if rest = [] then [(prev, rest, cs)] else [])"
| "matches ic Wordb (prev, rest, cs) =
     (if is_word_opt prev \<noteq> is_word_opt (case rest of [] \<Rightarrow> None | x # _ \<Rightarrow> Some x)
      then [(prev, rest, cs)] else [])"
  by pat_completeness auto
termination
  by (relation "measures [\<lambda>(ic, r, st). size r, \<lambda>(ic, r, st). length (fst (snd st))]") auto


text \<open>
  \<open>exec_at\<close> is the search of \<open>RegExp.prototype.exec\<close> from a position: the pattern is
  tried at the position and then at each later one; the result is the text skipped, the
  text matched (by the first, most preferred, way of matching) and the text after it.
\<close>

fun exec_at :: "bool \<Rightarrow> re \<Rightarrow> char option \<Rightarrow> string \<Rightarrow> (string \<times> string \<times> string) option" where
  "exec_at ic r prev [] =
     (case matches ic r (prev, [], Map.empty) of
        [] \<Rightarrow> None
      | st # _ \<Rightarrow> Some ([], [], []))"
| "exec_at ic r prev (x # xs) =
     (case matches ic r (prev, x # xs, Map.empty) of
        st # _ \<Rightarrow> Some ([], take (length (x # xs) - length (fst (snd st))) (x # xs), fst (snd st))
      | [] \<Rightarrow> (case exec_at ic r (Some x) xs of
                 None \<Rightarrow> None
               | Some (skipped, matched, rest) \<Rightarrow> Some (x # skipped, matched, rest)))"

text \<open>
  A regular expression object: its source text, its flags and the pattern the source
  denotes. \<open>test\<close> is \<open>RegExp.prototype.test\<close> of an object without the global and
  sticky flags: every call searches from the start of the string.
\<close>

record regexp =
  source :: string
  flags :: string
  pattern :: re

definition ignoreCase :: "regexp \<Rightarrow> bool" where
  "ignoreCase r = (CHR ''i'' \<in> set (flags r))"

definition test :: "regexp \<Rightarrow> string \<Rightarrow> bool" where
  "test r s = (exec_at (ignoreCase r) (pattern r) None s \<noteq> None)"

subsection \<open>Pattern syntax used by the literals\<close>

definition Opt :: "re \<Rightarrow> re" where
  "Opt r = Alt r Empty"

definition Plus :: "re \<Rightarrow> re" where
  "Plus r = Seq r (Star True r)"

definition seqs :: "re list \<Rightarrow> re" where
  "seqs rs = foldr Seq rs Empty"

definition dot :: re where
  "dot = Cls (\<lambda>c. \<not> is_line_terminator c)"

definition digit :: re where
  "digit = Cls is_digit"

definition char_range :: "char \<Rightarrow> char \<Rightarrow> re" where
  "char_range lo hi = Cls (\<lambda>c. code lo \<le> code c \<and> code c \<le> code hi)"

section \<open>Numbers\<close>

text \<open>
  A number of the language is an IEEE 754 double: a finite value, one of the two
  infinities, or \<open>NaN\<close>. A finite number is kept as the rational it denotes. The two zeros
  are one value here: they compare equal, add alike and print alike, and the only division
  of the program is by the budget cap, after the test that the cap is not zero.
\<close>

datatype number = Fin rat | PInf | NInf | NaN

text \<open>
  Rounding to the nearest double. \<open>norm x q\<close> halves or doubles \<open>x\<close>, keeping \<open>x * 2^q\<close>,
  until \<open>x\<close> lies between \<open>2^52\<close> and \<open>2^53\<close> (a significand of 53 bits) or the exponent
  is the least one, \<open>-1074\<close> (a subnormal number). \<open>rne\<close> is the nearest integer, the even
  one of two that are equally near. A result that reaches \<open>2^1024\<close> is an infinity.
\<close>

function norm :: "rat \<Rightarrow> int \<Rightarrow> rat \<times> int" where
  "norm x q =
     (if 9007199254740992 \<le> x then norm (x / 2) (q + 1)
      else if x < 4503599627370496 \<and> - 1074 < q then norm (2 * x) (q - 1)
      else (x, q))"
  by pat_completeness auto
termination
proof (relation "measure (\<lambda>(x, q). 2 * nat (\<lfloor>x\<rfloor> - 9007199254740991) + nat (q + 1074))")
  show "wf (measure (\<lambda>(x :: rat, q). 2 * nat (\<lfloor>x\<rfloor> - 9007199254740991) + nat (q + 1074)))"
    by simp
next
  fix x :: rat and q :: int
  assume a: "9007199254740992 \<le> x"
  have "of_int \<lfloor>x / 2\<rfloor> \<le> x / 2" by (rule of_int_floor_le)
  also have "\<dots> \<le> x - 1" using a by simp
  also have "\<dots> < of_int \<lfloor>x\<rfloor>" by linarith
  finally have "\<lfloor>x / 2\<rfloor> < \<lfloor>x\<rfloor>" by simp
  moreover have "9007199254740992 \<le> \<lfloor>x\<rfloor>" using a by linarith
  ultimately have "2 * nat (\<lfloor>x / 2\<rfloor> - 9007199254740991) + nat (q + 1 + 1074)
        < 2 * nat (\<lfloor>x\<rfloor> - 9007199254740991) + nat (q + 1074)"
    by linarith
  then show "((x / 2, q + 1), (x, q))
      \<in> measure (\<lambda>(x, q). 2 * nat (\<lfloor>x\<rfloor> - 9007199254740991) + nat (q + 1074))"
    by (simp only: in_measure prod.case)
next
  fix x :: rat and q :: int
  assume b: "\<not> 9007199254740992 \<le> x" "x < 4503599627370496 \<and> - 1074 < q"
  then have "\<lfloor>2 * x\<rfloor> \<le> 9007199254740991" "\<lfloor>x\<rfloor> \<le> 9007199254740991" by linarith+
  with b have "2 * nat (\<lfloor>2 * x\<rfloor> - 9007199254740991) + nat (q - 1 + 1074)
        < 2 * nat (\<lfloor>x\<rfloor> - 9007199254740991) + nat (q + 1074)"
    by linarith
  then show "((2 * x, q - 1), (x, q))
      \<in> measure (\<lambda>(x, q). 2 * nat (\<lfloor>x\<rfloor> - 9007199254740991) + nat (q + 1074))"
    by (simp only: in_measure prod.case)
qed

declare norm.simps [simp del]

definition rne :: "rat \<Rightarrow> int" where
  "rne x =
     (let f = \<lfloor>x\<rfloor>; r = x - of_int f
      in if r < 1 / 2 then f else if 1 / 2 < r then f + 1 else if even f then f else f + 1)"

definition round64 :: "rat \<Rightarrow> number" where
  "round64 x =
     (if x = 0 then Fin 0
      else (let (y, q) = norm \<bar>x\<bar> 0; v = of_int (rne y) * 2 powi q
            in if 2 powi 1024 \<le> v then (if 0 < x then PInf else NInf)
               else Fin (if 0 < x then v else - v)))"

text \<open>The number that a decimal literal denotes.\<close>

definition lit :: "rat \<Rightarrow> number" where
  "lit x = round64 x"

text \<open>
  The arithmetic: the exact result, rounded. The sum of opposite infinities, the product of
  zero and an infinity and the quotient of two zeros or two infinities are \<open>NaN\<close>.
\<close>

fun fneg :: "number \<Rightarrow> number" where
  "fneg (Fin a) = Fin (- a)"
| "fneg PInf = NInf"
| "fneg NInf = PInf"
| "fneg NaN = NaN"

fun fadd :: "number \<Rightarrow> number \<Rightarrow> number" where
  "fadd (Fin a) (Fin b) = round64 (a + b)"
| "fadd NaN b = NaN"
| "fadd a NaN = NaN"
| "fadd PInf NInf = NaN"
| "fadd NInf PInf = NaN"
| "fadd PInf b = PInf"
| "fadd NInf b = NInf"
| "fadd (Fin a) b = b"

definition fsub :: "number \<Rightarrow> number \<Rightarrow> number" where
  "fsub a b = fadd a (fneg b)"

fun fmul :: "number \<Rightarrow> number \<Rightarrow> number" where
  "fmul (Fin a) (Fin b) = round64 (a * b)"
| "fmul NaN b = NaN"
| "fmul a NaN = NaN"
| "fmul (Fin a) b = (if a = 0 then NaN else if 0 < a then b else fneg b)"
| "fmul a (Fin b) = (if b = 0 then NaN else if 0 < b then a else fneg a)"
| "fmul PInf b = b"
| "fmul NInf b = fneg b"

fun fdiv :: "number \<Rightarrow> number \<Rightarrow> number" where
  "fdiv (Fin a) (Fin b) =
     (if b = 0 then (if a = 0 then NaN else if 0 < a then PInf else NInf) else round64 (a / b))"
| "fdiv NaN b = NaN"
| "fdiv a NaN = NaN"
| "fdiv (Fin a) b = Fin 0"
| "fdiv a (Fin b) = (if 0 \<le> b then a else fneg a)"
| "fdiv a b = NaN"

text \<open>The comparisons \<open><\<close> and \<open><=\<close>; both are false when an operand is \<open>NaN\<close>.\<close>

fun fless :: "number \<Rightarrow> number \<Rightarrow> bool" where
  "fless (Fin a) (Fin b) = (a < b)"
| "fless NaN b = False"
| "fless a NaN = False"
| "fless a NInf = False"
| "fless PInf b = False"
| "fless a b = True"

definition fle :: "number \<Rightarrow> number \<Rightarrow> bool" where
  "fle a b = (fless a b \<or> a = b \<and> a \<noteq> NaN)"

text \<open>A number is falsy when it is zero or \<open>NaN\<close>.\<close>

definition falsy :: "number \<Rightarrow> bool" where
  "falsy n = (n = Fin 0 \<or> n = NaN)"

fun fabs :: "number \<Rightarrow> number" where
  "fabs (Fin a) = Fin \<bar>a\<bar>"
| "fabs NaN = NaN"
| "fabs a = PInf"

definition Math_min :: "number \<Rightarrow> number \<Rightarrow> number" where
  "Math_min a b = (if a = NaN \<or> b = NaN then NaN else if fless b a then b else a)"

definition finite_number :: "number \<Rightarrow> bool" where
  "finite_number n = (case n of Fin a \<Rightarrow> True | _ \<Rightarrow> False)"

text \<open>
  The finite numbers of the language are the rationals that rounding leaves as they are.
\<close>

definition is_double :: "rat \<Rightarrow> bool" where
  "is_double x = (round64 x = Fin x)"

section \<open>validators.js\<close>

subsection \<open>REGEX\_PATTERNS\<close>

text \<open>The backslash, which a string literal of the logic cannot hold.\<close>

definition bsl :: char where
  "bsl = CHR 0x5C"

text \<open>\<^verbatim>\<open>description: /^\S(?:.*\S)?$/\<close>\<close>

definition REGEX_description :: regexp where
  "REGEX_description = \<lparr> source = ''^'' @ bsl # ''S(?:.*'' @ bsl # ''S)?$'', flags = [],
     pattern = seqs [Bol, Cls (\<lambda>c. \<not> is_space c),
                     Opt (Seq (Star True dot) (Cls (\<lambda>c. \<not> is_space c))), Eol] \<rparr>"

text \<open>\<^verbatim>\<open>amount: /^(0|[1-9]\d*)(\.\d{1,2})?$/\<close>\<close>

definition REGEX_amount :: regexp where
  "REGEX_amount = \<lparr> source = ''^(0|[1-9]'' @ bsl # ''d*)('' @ bsl # ''.'' @ bsl # ''d{1,2})?$'', flags = [],
     pattern = seqs [Bol,
       Grp 1 (Alt (Chr CHR ''0'') (Seq (char_range CHR ''1'' CHR ''9'') (Star True digit))),
       Opt (Grp 2 (seqs [Chr CHR ''.'', digit, Opt digit])),
       Eol] \<rparr>"

text \<open>\<^verbatim>\<open>date: /^\d{4}-(0[1-9]|1[0-2])-(0[1-9]|[12]\d|3[01])$/\<close>\<close>

definition REGEX_date :: regexp where
  "REGEX_date = \<lparr> source = ''^'' @ bsl # ''d{4}-(0[1-9]|1[0-2])-(0[1-9]|[12]'' @ bsl # ''d|3[01])$'', flags = [],
     pattern = seqs [Bol, digit, digit, digit, digit, Chr CHR ''-'',
       Grp 1 (Alt (Seq (Chr CHR ''0'') (char_range CHR ''1'' CHR ''9''))
                  (Seq (Chr CHR ''1'') (char_range CHR ''0'' CHR ''2''))),
       Chr CHR ''-'',
       Grp 2 (Alt (Seq (Chr CHR ''0'') (char_range CHR ''1'' CHR ''9''))
             (Alt (Seq (char_range CHR ''1'' CHR ''2'') digit)
                  (Seq (Chr CHR ''3'') (char_range CHR ''0'' CHR ''1'')))),
       Eol] \<rparr>"

text \<open>\<^verbatim>\<open>category: /^[A-Za-z]+(?:[ -][A-Za-z]+)*$/\<close>\<close>

definition REGEX_category :: regexp where
  "REGEX_category = \<lparr> source = ''^[A-Za-z]+(?:[ -][A-Za-z]+)*$'', flags = [],
     pattern = seqs [Bol, Plus (Cls is_letter),
       Star True (Seq (Cls (\<lambda>c. c = CHR '' '' \<or> c = CHR ''-'')) (Plus (Cls is_letter))),
       Eol] \<rparr>"

text \<open>\<^verbatim>\<open>duplicateWord: /\b(\w+)\s+\1\b/i\<close>\<close>

definition REGEX_duplicateWord :: regexp where
  "REGEX_duplicateWord = \<lparr> source = bsl # ''b('' @ bsl # ''w+)'' @ bsl # ''s+'' @ bsl # ''1'' @ bsl # ''b'', flags = ''i'',
     pattern = seqs [Wordb, Grp 1 (Plus (Cls is_word)), Plus (Cls is_space), Bref 1, Wordb] \<rparr>"

subsection \<open>Field validators\<close>

text \<open>
  A validator returns the object \<open>{ valid, message }\<close>. Its argument is a string, as the
  form fields deliver it: \<open>!value\<close> holds for the empty string.
\<close>

record validation =
  valid :: bool
  message :: string

definition accept :: validation where
  "accept = \<lparr> valid = True, message = [] \<rparr>"

definition reject :: "string \<Rightarrow> validation" where
  "reject msg = \<lparr> valid = False, message = msg \<rparr>"

definition MESSAGES_description_required :: string where
  "MESSAGES_description_required = ''Description is required''"

definition MESSAGES_description_invalid :: string where
  "MESSAGES_description_invalid = ''Description cannot start or end with a space''"

definition MESSAGES_description_duplicate :: string where
  "MESSAGES_description_duplicate = ''Description has a repeated word (e.g. \"the the\")''"

definition MESSAGES_amount_required :: string where
  "MESSAGES_amount_required = ''Amount is required''"

definition MESSAGES_amount_invalid :: string where
  "MESSAGES_amount_invalid = ''Enter a valid amount like 10 or 10.50''"

definition MESSAGES_date_required :: string where
  "MESSAGES_date_required = ''Date is required''"

definition MESSAGES_date_invalid :: string where
  "MESSAGES_date_invalid = ''Date must be in YYYY-MM-DD format (e.g. 2025-09-29)''"

definition MESSAGES_category_required :: string where
  "MESSAGES_category_required = ''Please select a category''"

definition MESSAGES_category_invalid :: string where
  "MESSAGES_category_invalid = ''Category can only contain letters, spaces, and hyphens''"

definition validateDescription :: "string \<Rightarrow> validation" where
  "validateDescription v =
     (if v = [] \<or> trim v = [] then reject MESSAGES_description_required
      else if \<not> test REGEX_description v then reject MESSAGES_description_invalid
      else if test REGEX_duplicateWord v then reject MESSAGES_description_duplicate
      else accept)"


text \<open>
  \<open>parseFloat\<close> on a decimal numeral: leading white space, an optional sign, digits and an
  optional fraction; the longest such prefix is read and its value is rounded to a number;
  without a digit the result is \<open>NaN\<close>. (Exponents and \<open>Infinity\<close> are left out:
  \<open>validateAmount\<close> calls it only on a string that matched the amount pattern.)
\<close>

definition digit_value :: "char \<Rightarrow> nat" where
  "digit_value c = code c - 48"

definition digits_value :: "string \<Rightarrow> nat" where
  "digits_value ds = foldl (\<lambda>n c. 10 * n + digit_value c) 0 ds"

definition parseFloat :: "string \<Rightarrow> number" where
  "parseFloat s =
     (let t = dropWhile is_space s;
          neg = (case t of [] \<Rightarrow> False | c # _ \<Rightarrow> c = CHR ''-'');
          u = (case t of [] \<Rightarrow> [] | c # cs \<Rightarrow> if c = CHR ''-'' \<or> c = CHR ''+'' then cs else t);
          ip = takeWhile is_digit u;
          fp = (case dropWhile is_digit u of
                  [] \<Rightarrow> []
                | c # cs \<Rightarrow> if c = CHR ''.'' then takeWhile is_digit cs else []);
          n = of_nat (digits_value ip) + of_nat (digits_value fp) / 10 ^ length fp
      in if ip = [] \<and> fp = [] then NaN else round64 (if neg then - n else n))"

definition validateAmount :: "string \<Rightarrow> validation" where
  "validateAmount v =
     (if v = [] \<or> trim v = [] then reject MESSAGES_amount_required
      else if \<not> test REGEX_amount v then reject MESSAGES_amount_invalid
      else if fless (parseFloat v) (Fin 0) then reject ''Amount cannot be negative''
      else accept)"

subsection \<open>Dates\<close>

text \<open>
  A \<open>Date\<close> object is its time value, the milliseconds since the epoch in UTC. Local time
  is UTC plus the offset \<open>tza\<close> of the zone, a constant (no daylight-saving change).
  The calendar follows the definitions of the language: \<open>DaysInYear\<close>, \<open>DayFromYear\<close>
  (the day number of 1 January; day 0 is 1970-01-01), \<open>YearFromTime\<close> (the largest year
  whose first day is not after the day, found here by a search from an estimate),
  \<open>MonthFromTime\<close> and \<open>DateFromTime\<close> (by the day within the year), and \<open>MakeDay\<close>:
  month indices outside 0..11 carry into the year, and a day of the month outside the
  month carries into the neighbouring months.
\<close>

definition msPerDay :: int where
  "msPerDay = 86400000"

definition leap_year :: "int \<Rightarrow> bool" where
  "leap_year y = (y mod 4 = 0 \<and> (y mod 100 \<noteq> 0 \<or> y mod 400 = 0))"

definition DaysInYear :: "int \<Rightarrow> int" where
  "DaysInYear y = (if leap_year y then 366 else 365)"

definition DayFromYear :: "int \<Rightarrow> int" where
  "DayFromYear y = 365 * (y - 1970) + (y - 1969) div 4 - (y - 1901) div 100 + (y - 1601) div 400"

lemma div_succ:
  fixes a k :: int
  assumes "0 < k"
  shows "(a + 1) div k = a div k + (if (a + 1) mod k = 0 then 1 else 0)"
proof -
  define q r where "q = a div k" and "r = a mod k"
  have a: "a = k * q + r" and r: "0 \<le> r" "r < k"
    using assms by (simp_all add: q_def r_def)
  show ?thesis
  proof (cases "r + 1 = k")
    case True
    then have "a + 1 = k * (q + 1)" using a by (simp add: algebra_simps)
    then have "(a + 1) div k = q + 1" "(a + 1) mod k = 0" using assms by simp_all
    then show ?thesis by (simp add: q_def)
  next
    case False
    then have lt: "r + 1 < k" using r by simp
    have "a + 1 = k * q + (r + 1)" using a by simp
    then have "(a + 1) div k = q" "(a + 1) mod k = r + 1"
      using r lt by (auto intro: int_div_pos_eq int_mod_pos_eq)
    with r show ?thesis by (simp add: q_def)
  qed
qed

lemma m4: "((y::int) - 1968) mod 4 = 0 \<longleftrightarrow> y mod 4 = 0" by presburger
lemma m100: "((y::int) - 1900) mod 100 = 0 \<longleftrightarrow> y mod 100 = 0" by presburger
lemma m400: "((y::int) - 1600) mod 400 = 0 \<longleftrightarrow> y mod 400 = 0" by presburger
lemma d1: "(y::int) mod 400 = 0 \<Longrightarrow> y mod 100 = 0" by presburger
lemma d2: "(y::int) mod 100 = 0 \<Longrightarrow> y mod 4 = 0" by presburger

lemma DayFromYear_Suc: "DayFromYear (y + 1) = DayFromYear y + DaysInYear y"
proof -
  have a: "(y + 1 - 1969) div 4 = (y - 1969) div 4 + (if y mod 4 = 0 then 1 else 0)"
    using div_succ [of 4 "y - 1969"] m4 [of y] by (simp add: algebra_simps)
  have b: "(y + 1 - 1901) div 100 = (y - 1901) div 100 + (if y mod 100 = 0 then 1 else 0)"
    using div_succ [of 100 "y - 1901"] m100 [of y] by (simp add: algebra_simps)
  have c: "(y + 1 - 1601) div 400 = (y - 1601) div 400 + (if y mod 400 = 0 then 1 else 0)"
    using div_succ [of 400 "y - 1601"] m400 [of y] by (simp add: algebra_simps)
  define A B C where "A = (y - 1969) div 4" and "B = (y - 1901) div 100"
    and "C = (y - 1601) div 400"
  have e1: "DayFromYear (y + 1) = 365 * (y - 1969) + (A + (if y mod 4 = 0 then 1 else 0))
      - (B + (if y mod 100 = 0 then 1 else 0)) + (C + (if y mod 400 = 0 then 1 else 0))"
    unfolding DayFromYear_def a b c A_def B_def C_def by simp
  have e2: "DayFromYear y = 365 * (y - 1970) + A - B + C"
    unfolding DayFromYear_def A_def B_def C_def by simp
  show ?thesis
    unfolding e1 e2 DaysInYear_def leap_year_def
    using d1 [of y] d2 [of y]
    by (cases "y mod 4 = 0"; cases "y mod 100 = 0"; cases "y mod 400 = 0") simp_all
qed

lemma DayFromYear_pred: "DayFromYear (y - 1) = DayFromYear y - DaysInYear (y - 1)"
  using DayFromYear_Suc [of "y - 1"] by simp

lemma DaysInYear_bounds: "365 \<le> DaysInYear y \<and> DaysInYear y \<le> 366"
  by (simp add: DaysInYear_def)

function year_of_day :: "int \<Rightarrow> int \<Rightarrow> int" where
  "year_of_day y n =
     (if n < DayFromYear y then year_of_day (y - 1) n
      else if DayFromYear (y + 1) \<le> n then year_of_day (y + 1) n
      else y)"
  by pat_completeness auto
termination
proof (relation "measure (\<lambda>(y, n). if n < DayFromYear y then nat (DayFromYear y - n) + 366
                                     else nat (n - DayFromYear y))", goal_cases)
  case 1
  show ?case by simp
next
  case (2 y n)
  then show ?case
    using DayFromYear_pred [of y] DaysInYear_bounds [of "y - 1"] by auto
next
  case (3 y n)
  then show ?case
    using DayFromYear_Suc [of y] DaysInYear_bounds [of y] by auto
qed

declare year_of_day.simps [simp del]

definition YearFromDay :: "int \<Rightarrow> int" where
  "YearFromDay n = year_of_day (1970 + n div 365) n"

definition leap_days :: "int \<Rightarrow> int" where
  "leap_days y = (if leap_year y then 1 else 0)"

definition month_start :: "int \<Rightarrow> int \<Rightarrow> int" where
  "month_start l m =
     (if m = 0 then 0 else if m = 1 then 31 else if m = 2 then 59 + l
      else if m = 3 then 90 + l else if m = 4 then 120 + l else if m = 5 then 151 + l
      else if m = 6 then 181 + l else if m = 7 then 212 + l else if m = 8 then 243 + l
      else if m = 9 then 273 + l else if m = 10 then 304 + l else 334 + l)"

definition month_of :: "int \<Rightarrow> int \<Rightarrow> int" where
  "month_of l dwy =
     (if dwy < 31 then 0 else if dwy < 59 + l then 1 else if dwy < 90 + l then 2
      else if dwy < 120 + l then 3 else if dwy < 151 + l then 4 else if dwy < 181 + l then 5
      else if dwy < 212 + l then 6 else if dwy < 243 + l then 7 else if dwy < 273 + l then 8
      else if dwy < 304 + l then 9 else if dwy < 334 + l then 10 else 11)"

definition DayWithinYear :: "int \<Rightarrow> int" where
  "DayWithinYear n = n - DayFromYear (YearFromDay n)"

definition MonthFromDay :: "int \<Rightarrow> int" where
  "MonthFromDay n = month_of (leap_days (YearFromDay n)) (DayWithinYear n)"

definition DateFromDay :: "int \<Rightarrow> int" where
  "DateFromDay n =
     DayWithinYear n - month_start (leap_days (YearFromDay n)) (MonthFromDay n) + 1"

definition MakeDay :: "int \<Rightarrow> int \<Rightarrow> int \<Rightarrow> int" where
  "MakeDay year month date =
     (let ym = year + month div 12; mn = month mod 12
      in DayFromYear ym + month_start (leap_days ym) mn + date - 1)"

definition days_in_month :: "int \<Rightarrow> int \<Rightarrow> int" where
  "days_in_month y m =
     (if m = 2 then (if leap_year y then 29 else 28)
      else if m = 4 \<or> m = 6 \<or> m = 9 \<or> m = 11 then 30 else 31)"

text \<open>\<open>new Date(year, monthIndex, day)\<close>: local midnight; a year 0..99 means 1900 + year.\<close>

definition Date_ymd :: "int \<Rightarrow> int \<Rightarrow> int \<Rightarrow> int \<Rightarrow> int" where
  "Date_ymd tza year monthIndex day =
     MakeDay (if 0 \<le> year \<and> year \<le> 99 then 1900 + year else year) monthIndex day * msPerDay
       - tza"

definition getFullYear :: "int \<Rightarrow> int \<Rightarrow> int" where
  "getFullYear tza t = YearFromDay ((t + tza) div msPerDay)"

definition getMonth :: "int \<Rightarrow> int \<Rightarrow> int" where
  "getMonth tza t = MonthFromDay ((t + tza) div msPerDay)"

definition getDate :: "int \<Rightarrow> int \<Rightarrow> int" where
  "getDate tza t = DateFromDay ((t + tza) div msPerDay)"

text \<open>\<open>setDate\<close> keeps the local year, month and time of day and replaces the day of the month.\<close>

definition setDate :: "int \<Rightarrow> int \<Rightarrow> int \<Rightarrow> int" where
  "setDate tza t date =
     MakeDay (getFullYear tza t) (getMonth tza t) date * msPerDay + (t + tza) mod msPerDay - tza"

text \<open>\<open>value.split('-')\<close> and \<open>Number\<close> of a string of digits (\<open>None\<close> is \<open>NaN\<close>).\<close>

fun split_on :: "char \<Rightarrow> string \<Rightarrow> string list" where
  "split_on sep [] = [[]]"
| "split_on sep (c # cs) =
     (if c = sep then [] # split_on sep cs
      else (case split_on sep cs of p # ps \<Rightarrow> (c # p) # ps | [] \<Rightarrow> [[c]]))"

definition Number_of_digits :: "string \<Rightarrow> int option" where
  "Number_of_digits s = (if list_all is_digit s then Some (int (digits_value s)) else None)"

definition isRealDate :: "int \<Rightarrow> string \<Rightarrow> bool" where
  "isRealDate tza v =
     (case split_on CHR ''-'' v of
        p0 # p1 # p2 # _ \<Rightarrow>
          (case (Number_of_digits p0, Number_of_digits p1, Number_of_digits p2) of
             (Some year, Some month, Some day) \<Rightarrow>
               (let dateObject = Date_ymd tza year (month - 1) day
                in getFullYear tza dateObject = year
                   \<and> getMonth tza dateObject = month - 1
                   \<and> getDate tza dateObject = day)
           | _ \<Rightarrow> False)
      | _ \<Rightarrow> False)"

definition validateDate :: "int \<Rightarrow> string \<Rightarrow> validation" where
  "validateDate tza v =
     (if v = [] \<or> trim v = [] then reject MESSAGES_date_required
      else if \<not> test REGEX_date v then reject MESSAGES_date_invalid
      else if \<not> isRealDate tza v
        then reject ''That date does not exist (e.g. Feb 30 is invalid)''
      else accept)"

definition validateCategory :: "string \<Rightarrow> validation" where
  "validateCategory v =
     (if v = [] \<or> trim v = [] then reject MESSAGES_category_required
      else if \<not> test REGEX_category v then reject MESSAGES_category_invalid
      else accept)"

subsection \<open>The whole form\<close>

text \<open>
  A value of the language, as far as the amount of a record can be one: \<open>undefined\<close>, a
  number or a string. The other fields of a record are strings.
\<close>

datatype jsval = Undefined | JNum number | JStr string

record form_data =
  fd_description :: string
  fd_amount :: jsval
  fd_category :: string
  fd_date :: string

text \<open>\<open>String(transaction.amount || '')\<close>; the text of a number is the host's.\<close>

definition amount_text :: "(number \<Rightarrow> string) \<Rightarrow> jsval \<Rightarrow> string" where
  "amount_text Number_toString a =
     (case a of
        Undefined \<Rightarrow> []
      | JNum n \<Rightarrow> if falsy n then [] else Number_toString n
      | JStr s \<Rightarrow> s)"

datatype field = Description | Amount | Date | Category

record transaction_validation =
  tv_valid :: bool
  tv_errors :: "field \<rightharpoonup> string"

definition add_error :: "field \<Rightarrow> validation \<Rightarrow> (field \<rightharpoonup> string) \<Rightarrow> (field \<rightharpoonup> string)" where
  "add_error f check errors = (if \<not> valid check then errors(f \<mapsto> message check) else errors)"

definition validateTransaction ::
  "(number \<Rightarrow> string) \<Rightarrow> int \<Rightarrow> form_data \<Rightarrow> transaction_validation" where
  "validateTransaction Number_toString tza transaction =
     (let descCheck = validateDescription (fd_description transaction);
          amountCheck = validateAmount (amount_text Number_toString (fd_amount transaction));
          dateCheck = validateDate tza (fd_date transaction);
          categoryCheck = validateCategory (fd_category transaction);
          errors = add_error Category categoryCheck
                    (add_error Date dateCheck
                      (add_error Amount amountCheck
                        (add_error Description descCheck Map.empty)))
      in \<lparr> tv_valid = (dom errors = {}), tv_errors = errors \<rparr>)"


section \<open>The host\<close>

text \<open>
  What the program takes from its host and this development does not fix: the syntax of
  the pattern language (\<open>parse_pattern\<close>, \<open>None\<close> for a pattern \<open>new RegExp\<close> refuses
  with a \<open>SyntaxError\<close>), the text of a number, the parser of date strings (\<open>None\<close> for
  an invalid date), the comparison of strings in the locale, the offset of the local
  zone and the clock. The functions of the program take the host as an argument, and the
  theorems about them hold for every host.
\<close>

record host =
  parse_pattern :: "string \<Rightarrow> re option"
  Number_toString :: "number \<Rightarrow> string"
  Date_parse :: "string \<Rightarrow> int option"
  localeCompare :: "string \<Rightarrow> string \<Rightarrow> int"
  LocalTZA :: int
  Date_now :: int

datatype exn = SyntaxError

text \<open>\<open>new RegExp(pattern, flags)\<close>, for the flags the program passes.\<close>

definition new_RegExp :: "host \<Rightarrow> string \<Rightarrow> string \<Rightarrow> exn + regexp" where
  "new_RegExp h src fl =
     (case parse_pattern h src of
        None \<Rightarrow> Inl SyntaxError
      | Some p \<Rightarrow> Inr \<lparr> source = src, flags = fl, pattern = p \<rparr>)"

section \<open>search.js\<close>

record transaction =
  txn_id :: string
  description :: string
  amount :: number
  category :: string
  date :: string
  createdAt :: string
  updatedAt :: string

subsection \<open>compileRegex\<close>

text \<open>
  The result is \<open>Inr\<close> of what the function returns (\<open>None\<close> is \<open>null\<close>) or \<open>Inl\<close> of an
  exception that leaves it. The \<open>catch\<close> clause turns the exception of the constructor
  into \<open>null\<close> (and writes to the console, which is not modelled).
\<close>

definition compileRegex :: "host \<Rightarrow> string \<Rightarrow> bool \<Rightarrow> exn + regexp option" where
  "compileRegex h input caseSensitive =
     (if input = [] \<or> trim input = [] then Inr None
      else (case new_RegExp h input (if caseSensitive then [] else ''i'') of
              Inr r \<Rightarrow> Inr (Some r)
            | Inl error \<Rightarrow> Inr None))"

definition makeGlobalRegex :: "host \<Rightarrow> regexp option \<Rightarrow> regexp option" where
  "makeGlobalRegex h regex =
     (case regex of
        None \<Rightarrow> None
      | Some r \<Rightarrow>
          (case new_RegExp h (source r) (if CHR ''i'' \<in> set (flags r) then ''gi'' else ''g'') of
             Inr g \<Rightarrow> Some g
           | Inl error \<Rightarrow> None))"

subsection \<open>escapeHtml\<close>

text \<open>
  The text is made the content of an element and the markup of the element is read back:
  the serialisation of a text node replaces \<open>&\<close>, \<open><\<close>, \<open>>\<close> and the no-break space.
\<close>

definition escape_char :: "char \<Rightarrow> string" where
  "escape_char c =
     (if c = CHR ''&'' then ''&amp;''
      else if c = CHR ''<'' then ''&lt;''
      else if c = CHR ''>'' then ''&gt;''
      else if code c = 160 then ''&nbsp;''
      else [c])"

definition escapeHtml :: "string \<Rightarrow> string" where
  "escapeHtml text = concat (map escape_char text)"

subsection \<open>highlight\<close>

lemma matches_suffix:
  "st' \<in> set (matches ic r st) \<Longrightarrow> \<exists>consumed. fst (snd st) = consumed @ fst (snd st')"
proof (induction ic r st arbitrary: st' rule: matches.induct)
  case (4 ic a b st)
  then obtain mid where m1: "mid \<in> set (matches ic a st)" and m2: "st' \<in> set (matches ic b mid)"
    by auto
  from 4(1) [OF m1] obtain c1 where "fst (snd st) = c1 @ fst (snd mid)" by blast
  moreover from 4(2) [OF m1 m2] obtain c2 where "fst (snd mid) = c2 @ fst (snd st')" by blast
  ultimately show ?case by simp
next
  case (6 ic greedy r prev rest cs)
  let ?start = "(prev, rest, clear_captures (groups r) cs)"
  show ?case
  proof (cases "st' = (prev, rest, cs)")
    case True
    then show ?thesis by simp
  next
    case False
    with 6(3) obtain mid where m1: "mid \<in> set (matches ic r ?start)"
      and lt: "length (fst (snd mid)) < length rest"
      and m2: "st' \<in> set (matches ic (Star greedy r) mid)"
      by (auto simp: Let_def split: if_splits)
    from 6(1) [OF m1] obtain c1 where "rest = c1 @ fst (snd mid)" by auto
    moreover from 6(2) [OF m1 lt m2] obtain c2 where "fst (snd mid) = c2 @ fst (snd st')"
      by blast
    ultimately show ?thesis by simp
  qed
next
  case (8 ic n prev rest cs)
  then show ?case
    by (auto split: option.splits if_splits) (metis append_take_drop_id)
qed (auto split: list.splits if_splits)

lemma matches_length:
  "st' \<in> set (matches ic r (prev, rest, cs)) \<Longrightarrow> length (fst (snd st')) \<le> length rest"
  using matches_suffix [of st' ic r "(prev, rest, cs)"] by auto

lemma exec_at_parts:
  "exec_at ic r prev s = Some (skipped, matched, rest) \<Longrightarrow> s = skipped @ matched @ rest"
proof (induction s arbitrary: prev skipped)
  case Nil
  then show ?case by (auto split: list.splits)
next
  case (Cons x xs)
  show ?case
  proof (cases "matches ic r (prev, x # xs, Map.empty)")
    case Nil
    with Cons.prems obtain sk where e: "exec_at ic r (Some x) xs = Some (sk, matched, rest)"
      and sk: "skipped = x # sk"
      by (auto split: option.splits)
    from Cons.IH [OF e] sk show ?thesis by simp
  next
    case (Cons st sts)
    then have "st \<in> set (matches ic r (prev, x # xs, Map.empty))" by simp
    from matches_suffix [OF this] obtain c where c: "x # xs = c @ fst (snd st)" by auto
    then have t: "take (length (x # xs) - length (fst (snd st))) (x # xs) = c"
      by (metis add_diff_cancel_right' append_eq_conv_conj length_append)
    from Cons Cons.prems have "skipped = [] \<and> rest = fst (snd st)
      \<and> matched = take (length (x # xs) - length (fst (snd st))) (x # xs)"
      by auto
    with t c show ?thesis by simp
  qed
qed

text \<open>
  \<open>String.prototype.replace\<close> with a global regular expression and a replacer function:
  the matches are found from left to right, each search starting where the last match
  ended, or one character later when that match was empty; the text between the matches
  is kept and each match is replaced by what the function returns for it.
\<close>

function replace_global ::
  "bool \<Rightarrow> re \<Rightarrow> (string \<Rightarrow> string) \<Rightarrow> char option \<Rightarrow> string \<Rightarrow> string" where
  "replace_global ic r f prev s =
     (case exec_at ic r prev s of
        None \<Rightarrow> s
      | Some (skipped, matched, rest) \<Rightarrow>
          skipped @ f matched @
          (if matched = []
           then (case rest of
                   [] \<Rightarrow> []
                 | x # xs \<Rightarrow> x # replace_global ic r f (Some x) xs)
           else replace_global ic r f (last_char prev (skipped @ matched)) rest))"
  by pat_completeness auto
termination
proof (relation "measure (\<lambda>(ic, r, f, prev, s). length s)", goal_cases)
  case 1
  show ?case by simp
next
  case (2 ic r f prev s x2 skipped y matched rest x xs)
  then have "s = skipped @ matched @ rest" by (auto dest: exec_at_parts)
  with 2 show ?case by simp
next
  case (3 ic r f prev s x2 skipped y matched rest)
  then have "s = skipped @ matched @ rest" by (auto dest: exec_at_parts)
  with 3 show ?case by simp
qed

declare replace_global.simps [simp del]

text \<open>
  With a search value that is not a regular expression, \<open>replace\<close> converts it to a string
  and replaces its first occurrence; \<open>null\<close> becomes the string \<open>null\<close>.
\<close>

fun replace_first :: "string \<Rightarrow> (string \<Rightarrow> string) \<Rightarrow> string \<Rightarrow> string" where
  "replace_first pat f [] = (if pat = [] then f pat else [])"
| "replace_first pat f (c # cs) =
     (if take (length pat) (c # cs) = pat then f pat @ drop (length pat) (c # cs)
      else c # replace_first pat f cs)"

definition String_replace :: "regexp option \<Rightarrow> (string \<Rightarrow> string) \<Rightarrow> string \<Rightarrow> string" where
  "String_replace searchValue f s =
     (case searchValue of
        None \<Rightarrow> replace_first ''null'' f s
      | Some g \<Rightarrow> replace_global (ignoreCase g) (pattern g) f None s)"

definition mark :: "string \<Rightarrow> string" where
  "mark m = ''<mark>'' @ m @ ''</mark>''"

text \<open>
  \<open>text\<close> is a string (\<open>!text\<close> holds for the empty one). Nothing in the \<open>try\<close> block
  throws, so the \<open>catch\<close> clause has no case here.
\<close>

definition highlight :: "host \<Rightarrow> string \<Rightarrow> regexp option \<Rightarrow> string" where
  "highlight h text regex =
     (if regex = None \<or> text = [] then escapeHtml text
      else (let globalRegex = makeGlobalRegex h regex;
                safeText = escapeHtml text
            in String_replace globalRegex mark safeText))"

subsection \<open>Filters\<close>

fun searchTransactions :: "host \<Rightarrow> transaction list \<Rightarrow> regexp option \<Rightarrow> transaction list" where
  "searchTransactions h transactions None = transactions"
| "searchTransactions h transactions (Some searchRegex) =
     filter (\<lambda>txn.
        let matchesDescription = test searchRegex (description txn);
            matchesAmount = test searchRegex (Number_toString h (amount txn));
            matchesCategory = test searchRegex (category txn);
            matchesDate = test searchRegex (date txn)
        in matchesDescription \<or> matchesAmount \<or> matchesCategory \<or> matchesDate)
       transactions"

definition filterByCategory :: "transaction list \<Rightarrow> string \<Rightarrow> transaction list" where
  "filterByCategory transactions cat =
     (if cat = [] then transactions else filter (\<lambda>txn. category txn = cat) transactions)"


subsection \<open>sortTransactions\<close>

text \<open>
  \<open>Array.prototype.sort\<close> with a comparison function. The sort is stable. When the
  comparison is consistent (it orders the elements as a total preorder, as the comparisons
  of this program do when every date parses) the language fixes the result: the elements
  in ascending order of the comparison, equal ones in their original order, and insertion
  gives that order. A comparison that returns \<open>NaN\<close> counts as 0; with such results the
  comparison need not be consistent, and then the language leaves the order to the
  implementation, of which insertion is one.
\<close>

definition positive :: "number \<Rightarrow> bool" where
  "positive v = fless (Fin 0) v"

fun insert_by :: "('a \<Rightarrow> 'a \<Rightarrow> number) \<Rightarrow> 'a \<Rightarrow> 'a list \<Rightarrow> 'a list" where
  "insert_by cmp x [] = [x]"
| "insert_by cmp x (y # ys) =
     (if positive (cmp x y) then y # insert_by cmp x ys else x # y # ys)"

definition Array_sort :: "('a \<Rightarrow> 'a \<Rightarrow> number) \<Rightarrow> 'a list \<Rightarrow> 'a list" where
  "Array_sort cmp xs = foldr (insert_by cmp) xs []"

text \<open>
  \<open>new Date(s) - new Date(t)\<close>: the difference of the time values, rounded; \<open>NaN\<close> when
  one of the dates is invalid.
\<close>

definition date_diff :: "host \<Rightarrow> string \<Rightarrow> string \<Rightarrow> number" where
  "date_diff h s t =
     (case (Date_parse h s, Date_parse h t) of
        (Some a, Some b) \<Rightarrow> round64 (of_int (a - b))
      | _ \<Rightarrow> NaN)"

definition sort_comparison :: "host \<Rightarrow> string \<Rightarrow> (transaction \<Rightarrow> transaction \<Rightarrow> number) option" where
  "sort_comparison h sortBy =
     (if sortBy = ''date-desc'' then Some (\<lambda>a b. date_diff h (date b) (date a))
      else if sortBy = ''date-asc'' then Some (\<lambda>a b. date_diff h (date a) (date b))
      else if sortBy = ''desc-asc''
        then Some (\<lambda>a b. round64 (of_int (localeCompare h (description a) (description b))))
      else if sortBy = ''desc-desc''
        then Some (\<lambda>a b. round64 (of_int (localeCompare h (description b) (description a))))
      else if sortBy = ''amount-desc'' then Some (\<lambda>a b. fsub (amount b) (amount a))
      else if sortBy = ''amount-asc'' then Some (\<lambda>a b. fsub (amount a) (amount b))
      else None)"

text \<open>
  Arrays are objects: a variable holds a reference, and the heap maps the references in
  use to the elements. \<open>[...transactions]\<close> allocates a new array with the same elements,
  \<open>sorted.sort(...)\<close> reorders that array in place, and its reference is returned.
\<close>

record heap =
  arrays :: "nat \<rightharpoonup> transaction list"
  next_ref :: nat

definition elements :: "heap \<Rightarrow> nat \<Rightarrow> transaction list" where
  "elements hp a = (case arrays hp a of None \<Rightarrow> [] | Some xs \<Rightarrow> xs)"

definition array_copy :: "heap \<Rightarrow> nat \<Rightarrow> heap \<times> nat" where
  "array_copy hp a =
     (hp\<lparr> arrays := (arrays hp)(next_ref hp \<mapsto> elements hp a), next_ref := Suc (next_ref hp) \<rparr>,
      next_ref hp)"

definition sort_in_place :: "(transaction \<Rightarrow> transaction \<Rightarrow> number) \<Rightarrow> heap \<Rightarrow> nat \<Rightarrow> heap" where
  "sort_in_place cmp hp a = hp\<lparr> arrays := (arrays hp)(a \<mapsto> Array_sort cmp (elements hp a)) \<rparr>"

definition sortTransactions :: "host \<Rightarrow> heap \<Rightarrow> nat \<Rightarrow> string \<Rightarrow> heap \<times> nat" where
  "sortTransactions h hp transactions sortBy =
     (let (hp', sorted) = array_copy hp transactions
      in (case sort_comparison h sortBy of
            Some cmp \<Rightarrow> (sort_in_place cmp hp' sorted, sorted)
          | None \<Rightarrow> (hp', sorted)))"

section \<open>state.js\<close>

text \<open>The state object, as far as the statistics read it.\<close>

record app_state =
  transactions :: "transaction list"
  budgetCap :: number

subsection \<open>Objects used as tables\<close>

text \<open>
  \<open>categoryTotals\<close> is an ordinary object, so a read of a key that is not an own property
  finds the members of \<open>Object.prototype\<close>. An own property holds a number, or the string
  that \<open>+=\<close> makes of an inherited member (a function or an object) and a number; such a
  string is not empty and is not the text of a number, so it is truthy and compares as
  \<open>NaN\<close>. The own properties are kept in the order of their creation.
\<close>

datatype total = Num number | Text

definition Object_prototype_names :: "string list" where
  "Object_prototype_names =
     [''constructor'', ''__defineGetter__'', ''__defineSetter__'', ''hasOwnProperty'',
      ''__lookupGetter__'', ''__lookupSetter__'', ''isPrototypeOf'', ''propertyIsEnumerable'',
      ''toString'', ''valueOf'', ''__proto__'', ''toLocaleString'']"

definition assign :: "'k \<Rightarrow> 'v \<Rightarrow> ('k \<times> 'v) list \<Rightarrow> ('k \<times> 'v) list" where
  "assign k v obj =
     (if k \<in> fst ` set obj then map (\<lambda>p. if fst p = k then (k, v) else p) obj
      else obj @ [(k, v)])"

text \<open>
  One turn of the grouping loop:
  \<^verbatim>\<open>if (!categoryTotals[cat]) categoryTotals[cat] = 0; categoryTotals[cat] += amount\<close>.
  An assignment to \<open>__proto__\<close> of a string is ignored by the setter of that name.
\<close>

definition add_to_category :: "string \<Rightarrow> number \<Rightarrow> (string \<times> total) list \<Rightarrow> (string \<times> total) list" where
  "add_to_category cat a obj =
     (let unset = (case map_of obj cat of
                     Some (Num n) \<Rightarrow> falsy n
                   | Some Text \<Rightarrow> False
                   | None \<Rightarrow> cat \<notin> set Object_prototype_names);
          obj1 = (if unset then assign cat (Num (Fin 0)) obj else obj)
      in (case map_of obj1 cat of
            Some (Num n) \<Rightarrow> assign cat (Num (fadd n a)) obj1
          | Some Text \<Rightarrow> obj1
          | None \<Rightarrow> if cat = ''__proto__'' then obj1 else assign cat Text obj1))"

definition categoryTotals :: "transaction list \<Rightarrow> (string \<times> total) list" where
  "categoryTotals txns = foldl (\<lambda>obj t. add_to_category (category t) (amount t) obj) [] txns"

text \<open>
  \<open>Object.keys\<close>: the keys that are array indices (the canonical decimal text of a number
  below \<open>2^32 - 1\<close>) come first, in ascending numeric order; then the other keys in the
  order of their creation.
\<close>

definition is_array_index :: "string \<Rightarrow> bool" where
  "is_array_index k =
     (k \<noteq> [] \<and> list_all is_digit k \<and> (k = ''0'' \<or> hd k \<noteq> CHR ''0'')
      \<and> int (digits_value k) < 4294967295)"

definition Object_keys :: "(string \<times> 'v) list \<Rightarrow> string list" where
  "Object_keys obj =
     sort_key digits_value (filter is_array_index (map fst obj))
       @ filter (\<lambda>k. \<not> is_array_index k) (map fst obj)"

text \<open>The loop that finds the top category; it returns \<open>topCategory\<close> and \<open>topAmount\<close>.\<close>

fun top_loop :: "(string \<times> total) list \<Rightarrow> string list \<Rightarrow> string \<times> number \<Rightarrow> string \<times> number" where
  "top_loop obj [] (topCategory, topAmount) = (topCategory, topAmount)"
| "top_loop obj (cat # names) (topCategory, topAmount) =
     (case map_of obj cat of
        Some (Num a) \<Rightarrow>
          if fless topAmount a then top_loop obj names (cat, a)
          else top_loop obj names (topCategory, topAmount)
      | _ \<Rightarrow> top_loop obj names (topCategory, topAmount))"

subsection \<open>Dates of the statistics\<close>

function digits_of :: "nat \<Rightarrow> string" where
  "digits_of n = (if n < 10 then [char_of (48 + n)] else digits_of (n div 10) @ [char_of (48 + n mod 10)])"
  by pat_completeness auto
termination
  by (relation "measure id") auto

definition pad :: "nat \<Rightarrow> string \<Rightarrow> string" where
  "pad w s = replicate (w - length s) CHR ''0'' @ s"

text \<open>\<open>toISOString().split('T')[0]\<close>: the date in UTC; a year outside 0..9999 has a sign and six digits.\<close>

definition iso_date :: "int \<Rightarrow> string" where
  "iso_date t =
     (let day = t div msPerDay;
          y = YearFromDay day; m = MonthFromDay day + 1; d = DateFromDay day
      in (if 0 \<le> y \<and> y \<le> 9999 then pad 4 (digits_of (nat y))
          else (if y < 0 then ''-'' else ''+'') @ pad 6 (digits_of (nat \<bar>y\<bar>)))
         @ ''-'' @ pad 2 (digits_of (nat m)) @ ''-'' @ pad 2 (digits_of (nat d)))"

definition day_before :: "host \<Rightarrow> int \<Rightarrow> int" where
  "day_before h i = setDate (LocalTZA h) (Date_now h) (getDate (LocalTZA h) (Date_now h) - i)"

subsection \<open>calculateStats\<close>

record stats =
  stats_total :: nat
  stats_totalExpenses :: number
  stats_topCategory :: string
  stats_weekTotal :: number
  stats_dailyTotals :: "(string \<times> number) list"
  stats_budgetCap :: number

definition in_last_week :: "host \<Rightarrow> transaction \<Rightarrow> bool" where
  "in_last_week h t =
     (let sevenDaysAgo = day_before h 7
      in (case Date_parse h (date t) of None \<Rightarrow> False | Some d \<Rightarrow> d \<ge> sevenDaysAgo))"

definition dailyTotals_seed :: "host \<Rightarrow> (string \<times> number) list" where
  "dailyTotals_seed h =
     foldl (\<lambda>obj i. assign (iso_date (day_before h i)) (Fin 0) obj) [] [6, 5, 4, 3, 2, 1, 0]"

definition add_to_day :: "string \<Rightarrow> number \<Rightarrow> (string \<times> number) list \<Rightarrow> (string \<times> number) list" where
  "add_to_day txnDate a obj =
     (case map_of obj txnDate of None \<Rightarrow> obj | Some v \<Rightarrow> assign txnDate (fadd v a) obj)"

definition calculateStats :: "host \<Rightarrow> app_state \<Rightarrow> stats" where
  "calculateStats h st =
     (let txns = transactions st;
          total = length txns;
          totalExpenses = foldl (\<lambda>s t. fadd s (amount t)) (Fin 0) txns;
          totals = categoryTotals txns;
          top = top_loop totals (Object_keys totals) (''None'', Fin 0);
          weekTotal = foldl (\<lambda>s t. if in_last_week h t then fadd s (amount t) else s) (Fin 0) txns;
          dailyTotals = foldl (\<lambda>obj t. add_to_day (date t) (amount t) obj) (dailyTotals_seed h) txns
      in \<lparr> stats_total = total, stats_totalExpenses = totalExpenses, stats_topCategory = fst top,
           stats_weekTotal = weekTotal, stats_dailyTotals = dailyTotals,
           stats_budgetCap = budgetCap st \<rparr>)"

section \<open>ui.js: renderBudgetCap\<close>

text \<open>
  The function writes to three elements of the page. The elements are a record of the
  properties it sets; a property it does not set keeps its value. The text of the status
  line is kept as its kind and the numbers it shows (the amount by which the cap is
  exceeded, or the amount and the percentage remaining).
\<close>

datatype status_text =
    NoText
  | BudgetExceededBy number
  | WarningOnlyRemaining number number
  | Remaining number number

record cap_elements =
  capInput_value :: "number option"
  status_textContent :: status_text
  status_className :: string
  status_aria_live :: string
  progress_width :: number
  progress_className :: string

definition renderBudgetCap :: "host \<Rightarrow> app_state \<Rightarrow> cap_elements \<Rightarrow> cap_elements" where
  "renderBudgetCap h st page =
     (let stats = calculateStats h st;
          cap = stats_budgetCap stats;
          spent = stats_totalExpenses stats;
          page1 = page\<lparr> capInput_value := (if falsy cap then None else Some cap) \<rparr>
      in if falsy cap
         then page1\<lparr> status_textContent := NoText, status_className := ''cap-status'',
                     progress_width := Fin 0 \<rparr>
         else (let percentage = fmul (fdiv spent cap) (Fin 100);
                   remaining = fsub cap spent;
                   page2 = page1\<lparr> progress_width := Math_min percentage (Fin 100) \<rparr>
               in if fle (Fin 100) percentage
                  then page2\<lparr> status_textContent := BudgetExceededBy (fabs remaining),
                              status_className := ''cap-status error'',
                              progress_className := ''cap-progress-bar error'',
                              status_aria_live := ''assertive'' \<rparr>
                  else if fle (Fin 80) percentage
                  then page2\<lparr> status_textContent := WarningOnlyRemaining remaining (fsub (Fin 100) percentage),
                              status_className := ''cap-status warning'',
                              progress_className := ''cap-progress-bar warning'',
                              status_aria_live := ''polite'' \<rparr>
                  else page2\<lparr> status_textContent := Remaining remaining (fsub (Fin 100) percentage),
                              status_className := ''cap-status success'',
                              progress_className := ''cap-progress-bar'',
                              status_aria_live := ''polite'' \<rparr>))"


section \<open>A host for the examples\<close>

text \<open>
  The examples are evaluated on the host below. Its pattern language is the fragment of
  the language's with ordinary characters, \<open>.\<close> and the quantifiers \<open>*\<close>, \<open>+\<close>, \<open>?\<close>
  (lazy when followed by \<open>?\<close>); a quantifier with nothing to repeat is a syntax error, as
  in the language. A pattern with another syntax character is outside the fragment, and this
  host refuses it as well. Its date parser reads the form \<open>YYYY-MM-DD\<close> of a date that
  exists, as midnight UTC; it prints a finite number by its decimal expansion, cut after
  twenty places (for an integer this is the text the language gives), and compares strings
  by code unit.
\<close>

definition is_syntax_char :: "char \<Rightarrow> bool" where
  "is_syntax_char c = (c \<in> set ''^$.*+?()[]{}|'' \<or> c = bsl)"

definition parse_atom :: "char \<Rightarrow> re option" where
  "parse_atom c = (if c = CHR ''.'' then Some dot else if is_syntax_char c then None else Some (Chr c))"

definition quantify :: "char \<Rightarrow> bool \<Rightarrow> re \<Rightarrow> re" where
  "quantify q greedy a =
     (if q = CHR ''*'' then Star greedy a
      else if q = CHR ''+'' then Seq a (Star greedy a)
      else if greedy then Alt a Empty else Alt Empty a)"

fun parse_terms :: "string \<Rightarrow> re option" where
  "parse_terms [] = Some Empty"
| "parse_terms [c] = map_option (\<lambda>a. Seq a Empty) (parse_atom c)"
| "parse_terms (c # q # cs) =
     (case parse_atom c of
        None \<Rightarrow> None
      | Some a \<Rightarrow>
          if q \<in> set ''*+?''
          then (case cs of
                  [] \<Rightarrow> Some (Seq (quantify q True a) Empty)
                | l # cs' \<Rightarrow>
                    if l = CHR ''?'' then map_option (Seq (quantify q False a)) (parse_terms cs')
                    else map_option (Seq (quantify q True a)) (parse_terms (l # cs')))
          else map_option (Seq a) (parse_terms (q # cs)))"

definition parse_iso_date :: "string \<Rightarrow> int option" where
  "parse_iso_date s =
     (case split_on CHR ''-'' s of
        [ys, ms, ds] \<Rightarrow>
          if length ys = 4 \<and> length ms = 2 \<and> length ds = 2
             \<and> list_all is_digit ys \<and> list_all is_digit ms \<and> list_all is_digit ds
          then (let y = int (digits_value ys); m = int (digits_value ms); d = int (digits_value ds)
                in if 1 \<le> m \<and> m \<le> 12 \<and> 1 \<le> d \<and> d \<le> days_in_month y m
                   then Some (MakeDay y (m - 1) d * msPerDay) else None)
          else None
      | _ \<Rightarrow> None)"

fun fraction_digits :: "nat \<Rightarrow> rat \<Rightarrow> string" where
  "fraction_digits 0 x = []"
| "fraction_digits (Suc n) x =
     (if x = 0 then []
      else char_of (48 + nat \<lfloor>10 * x\<rfloor>) # fraction_digits n (10 * x - of_int \<lfloor>10 * x\<rfloor>))"

definition decimal_text :: "rat \<Rightarrow> string" where
  "decimal_text x =
     (let a = \<bar>x\<bar>; ip = \<lfloor>a\<rfloor>; fp = fraction_digits 20 (a - of_int ip)
      in (if x < 0 then ''-'' else []) @ digits_of (nat ip) @ (if fp = [] then [] else ''.'' @ fp))"

definition number_text :: "number \<Rightarrow> string" where
  "number_text n =
     (case n of
        Fin x \<Rightarrow> decimal_text x
      | PInf \<Rightarrow> ''Infinity''
      | NInf \<Rightarrow> ''-Infinity''
      | NaN \<Rightarrow> ''NaN'')"

fun compare_code_units :: "string \<Rightarrow> string \<Rightarrow> int" where
  "compare_code_units [] [] = 0"
| "compare_code_units [] (y # ys) = - 1"
| "compare_code_units (x # xs) [] = 1"
| "compare_code_units (x # xs) (y # ys) =
     (if code x < code y then - 1 else if code y < code x then 1 else compare_code_units xs ys)"

definition example_host :: "int \<Rightarrow> int \<Rightarrow> host" where
  "example_host tza clock =
     \<lparr> parse_pattern = parse_terms, Number_toString = number_text, Date_parse = parse_iso_date,
       localeCompare = compare_code_units, LocalTZA = tza, Date_now = clock \<rparr>"

text \<open>Transactions and pages of the examples.\<close>

definition txn :: "string \<Rightarrow> number \<Rightarrow> string \<Rightarrow> string \<Rightarrow> transaction" where
  "txn d a c dt =
     \<lparr> txn_id = ''txn_'' @ d, description = d, amount = a, category = c, date = dt,
       createdAt = ''2025-09-29T10:30:00.000Z'', updatedAt = ''2025-09-29T10:30:00.000Z'' \<rparr>"

definition blank_page :: cap_elements where
  "blank_page =
     \<lparr> capInput_value = None, status_textContent = NoText, status_className = ''cap-status'',
       status_aria_live = ''polite'', progress_width = Fin 0,
       progress_className = ''cap-progress-bar'' \<rparr>"


definition amp_regexp :: regexp where
  "amp_regexp = \<lparr> source = ''amp'', flags = ''i'',
     pattern = Seq (Chr CHR ''a'') (Seq (Chr CHR ''m'') (Seq (Chr CHR ''p'') Empty)) \<rparr>"

section \<open>Notions of the specification\<close>

text \<open>
  The sum of a sequence of numbers as the program forms it: from 0, from left to right,
  each addition rounded.
\<close>

definition float_sum :: "number list \<Rightarrow> number" where
  "float_sum xs = foldl fadd (Fin 0) xs"

text \<open>The sum of the amounts of the transactions of a category, in the order of the collection.\<close>

definition category_sum :: "transaction list \<Rightarrow> string \<Rightarrow> number" where
  "category_sum txns c = float_sum (map amount (filter (\<lambda>t. category t = c) txns))"

text \<open>The number a key of a table holds, if it holds one.\<close>

definition number_of :: "(string \<times> total) list \<Rightarrow> string \<Rightarrow> number option" where
  "number_of obj k = (case map_of obj k of Some (Num a) \<Rightarrow> Some a | _ \<Rightarrow> None)"

text \<open>The time value of the date of a transaction (0 for a date that does not parse).\<close>

definition time_value :: "host \<Rightarrow> transaction \<Rightarrow> int" where
  "time_value h t = (case Date_parse h (date t) of None \<Rightarrow> 0 | Some v \<Rightarrow> v)"

text \<open>The elements of a list in the order of their first occurrence.\<close>

definition first_occurrences :: "'a list \<Rightarrow> 'a list" where
  "first_occurrences xs = rev (remdups (rev xs))"

definition example_heap :: heap where
  "example_heap =
     \<lparr> arrays = [0 \<mapsto> [txn ''a'' (Fin 30) ''Food'' ''2025-09-21'',
                         txn ''b'' (Fin 20) ''Food'' ''2025-09-22'',
                         txn ''c'' (Fin 10) ''Books'' ''2025-09-21'']],
       next_ref = 1 \<rparr>"

text \<open>The clock of the examples: 2025-09-29, 10:30:00 UTC; and the midnight before it.\<close>

definition example_clock :: int where
  "example_clock = 1759141800000"

definition example_midnight :: int where
  "example_midnight = 1759104000000"

definition food_books :: "transaction list" where
  "food_books = [txn ''a'' (Fin 30) ''Food'' ''2025-09-29'', txn ''b'' (Fin 20) ''Food'' ''2025-09-28'',
                 txn ''c'' (Fin 10) ''Books'' ''2025-09-27'']"

text \<open>Three transactions with the amounts 0.3, 0.1 and 0.2.\<close>

definition tenths :: "transaction list" where
  "tenths = [txn ''b'' (lit (3 / 10)) ''B'' ''2025-09-29'', txn ''a1'' (lit (1 / 10)) ''A'' ''2025-09-29'',
             txn ''a2'' (lit (1 / 5)) ''A'' ''2025-09-29'']"

text \<open>Five transactions: 0.1, 0.2 and 0.3 of the category A, then 0.4 and 0.2 of the category B.\<close>

definition tied :: "transaction list" where
  "tied = [txn ''a1'' (lit (1 / 10)) ''A'' ''2025-09-29'', txn ''a2'' (lit (1 / 5)) ''A'' ''2025-09-29'',
           txn ''a3'' (lit (3 / 10)) ''A'' ''2025-09-29'', txn ''b1'' (lit (2 / 5)) ''B'' ''2025-09-29'',
           txn ''b2'' (lit (1 / 5)) ''B'' ''2025-09-29'']"

section \<open>Properties of the numbers\<close>

subsection \<open>Evaluation of the rounding\<close>

lemma norm_halve: "9007199254740992 \<le> x \<Longrightarrow> norm x q = norm (x / 2) (q + 1)"
  by (subst norm.simps) simp

lemma norm_double:
  "x < 4503599627370496 \<Longrightarrow> - 1074 < q \<Longrightarrow> norm x q = norm (2 * x) (q - 1)"
  by (subst norm.simps) simp

lemma norm_done:
  "x < 9007199254740992 \<Longrightarrow> 4503599627370496 \<le> x \<or> q \<le> - 1074 \<Longrightarrow> norm x q = (x, q)"
  by (subst norm.simps) auto

lemma floor_numeral_quotient: "\<lfloor>(numeral a :: rat) / numeral b\<rfloor> = numeral a div numeral b"
  using floor_divide_of_int_eq [where ?'a = rat, of "numeral a" "numeral b"] by simp

lemmas round64_eval = round64_def lit_def norm_halve norm_double norm_done rne_def Let_def
  floor_numeral_quotient

lemma round64_zero: "round64 0 = Fin 0"
  by (simp add: round64_def)

lemma round64_not_NaN: "round64 x \<noteq> NaN"
  by (simp add: round64_def Let_def split: prod.splits)

subsection \<open>The sign of a rounded number\<close>

lemma norm_value: "norm x q = (y, e) \<Longrightarrow> y * 2 powi e = x * 2 powi q"
proof (induction x q rule: norm.induct)
  case (1 x q)
  have up: "x / 2 * 2 powi (q + 1) = x * 2 powi q" by (simp add: power_int_add)
  have down: "2 * x * 2 powi (q - 1) = x * 2 powi q" by (simp add: power_int_diff)
  show ?case
  proof (cases "9007199254740992 \<le> x")
    case True
    with 1 up show ?thesis by (simp add: norm_halve)
  next
    case False
    show ?thesis
    proof (cases "x < 4503599627370496 \<and> - 1074 < q")
      case True
      with False 1 down show ?thesis by (simp add: norm_double)
    next
      case False
      with \<open>\<not> 9007199254740992 \<le> x\<close> 1 show ?thesis by (auto simp: norm.simps [of x q])
    qed
  qed
qed

lemma norm_nonneg: "0 \<le> x \<Longrightarrow> 0 \<le> fst (norm x q)"
proof (induction x q rule: norm.induct)
  case (1 x q)
  show ?case
  proof (cases "9007199254740992 \<le> x")
    case True
    with 1 show ?thesis by (simp add: norm_halve)
  next
    case False
    show ?thesis
    proof (cases "x < 4503599627370496 \<and> - 1074 < q")
      case True
      with False 1 show ?thesis by (simp add: norm_double)
    next
      case False
      with \<open>\<not> 9007199254740992 \<le> x\<close> 1 show ?thesis by (auto simp: norm.simps [of x q])
    qed
  qed
qed

lemma norm_normal:
  "1 \<le> x * 2 powi q \<Longrightarrow> - 1074 \<le> q \<Longrightarrow> 4503599627370496 \<le> fst (norm x q)"
proof (induction x q rule: norm.induct)
  case (1 x q)
  have up: "x / 2 * 2 powi (q + 1) = x * 2 powi q" by (simp add: power_int_add)
  have down: "2 * x * 2 powi (q - 1) = x * 2 powi q" by (simp add: power_int_diff)
  show ?case
  proof (cases "9007199254740992 \<le> x")
    case True
    with 1 up show ?thesis by (simp add: norm_halve)
  next
    case False
    show ?thesis
    proof (cases "x < 4503599627370496 \<and> - 1074 < q")
      case True
      with False 1 down show ?thesis by (simp add: norm_double)
    next
      case stop: False
      show ?thesis
      proof (cases "4503599627370496 \<le> x")
        case True
        with False show ?thesis by (simp add: norm_done)
      next
        case small: False
        with stop 1 have q: "q = - 1074" by simp
        have "x * 2 powi q < 4503599627370496 * 2 powi (- 1074)"
          using small q by simp
        also have "\<dots> < (1::rat)" by (simp add: power_int_minus)
        finally show ?thesis using 1 by simp
      qed
    qed
  qed
qed

lemma rne_ge_floor: "\<lfloor>x\<rfloor> \<le> rne x"
  by (simp add: rne_def Let_def)

lemma round64_positive: "1 \<le> x \<Longrightarrow> fless (Fin 0) (round64 x)"
proof -
  assume x: "1 \<le> x"
  obtain y q where n: "norm \<bar>x\<bar> 0 = (y, q)" by (cases "norm \<bar>x\<bar> 0")
  from x have "4503599627370496 \<le> fst (norm \<bar>x\<bar> 0)" by (intro norm_normal) simp_all
  with n have "4503599627370496 \<le> y" by simp
  then have "4503599627370496 \<le> \<lfloor>y\<rfloor>" by linarith
  with rne_ge_floor [of y] have "0 < rne y" by linarith
  then have "0 < rat_of_int (rne y) * 2 powi q" by simp
  with x n show ?thesis by (simp add: round64_def Let_def)
qed

lemma round64_not_positive: "x \<le> 0 \<Longrightarrow> \<not> fless (Fin 0) (round64 x)"
proof -
  assume x: "x \<le> 0"
  obtain y q where n: "norm \<bar>x\<bar> 0 = (y, q)" by (cases "norm \<bar>x\<bar> 0")
  have "0 \<le> fst (norm \<bar>x\<bar> 0)" by (intro norm_nonneg) simp
  with n have "0 \<le> y" by simp
  then have "0 \<le> \<lfloor>y\<rfloor>" by simp
  with rne_ge_floor [of y] have "0 \<le> rne y" by linarith
  then have "0 \<le> rat_of_int (rne y) * 2 powi q" by simp
  with x n show ?thesis by (simp add: round64_def Let_def)
qed

lemma round64_of_int_positive: "fless (Fin 0) (round64 (of_int d)) \<longleftrightarrow> 0 < d"
proof (cases "0 < d")
  case True
  then have "(1::rat) \<le> of_int d" by simp
  with True show ?thesis by (simp add: round64_positive)
next
  case False
  then have "(of_int d :: rat) \<le> 0" by simp
  with False show ?thesis by (simp add: round64_not_positive)
qed

subsection \<open>The order of the numbers\<close>

lemma fless_irrefl: "\<not> fless a a"
  by (cases a) simp_all

lemma fless_trans: "fless a b \<Longrightarrow> fless b c \<Longrightarrow> fless a c"
  by (cases a; cases b; cases c) simp_all

lemma fless_asym: "fless a b \<Longrightarrow> \<not> fless b a"
  by (cases a; cases b) simp_all

lemma fless_fle_trans: "fless a b \<Longrightarrow> fle b c \<Longrightarrow> fless a c"
  by (auto simp: fle_def intro: fless_trans)

lemma fle_fless_trans: "fle a b \<Longrightarrow> fless b c \<Longrightarrow> fless a c"
  by (auto simp: fle_def intro: fless_trans)

lemma fle_trans: "fle a b \<Longrightarrow> fle b c \<Longrightarrow> fle a c"
  by (auto simp: fle_def intro: fless_trans)

lemma fless_not_fle: "fless a b \<Longrightarrow> \<not> fle b a"
  by (auto simp: fle_def fless_irrefl dest: fless_asym)

lemma fle_Fin: "fle (Fin a) (Fin b) \<longleftrightarrow> a \<le> b"
  by (auto simp: fle_def)

lemma fadd_not_NaN: "a \<noteq> NaN \<Longrightarrow> fadd a (Fin b) \<noteq> NaN"
  by (cases a) (simp_all add: round64_not_NaN)

subsection \<open>Rounding is monotone\<close>

lemma norm_spec:
  "0 < x \<Longrightarrow> - 1074 \<le> q0 \<Longrightarrow> norm x q0 = (y, q) \<Longrightarrow>
     0 < y \<and> y < 9007199254740992 \<and> - 1074 \<le> q \<and> (4503599627370496 \<le> y \<or> q = - 1074)"
proof (induction x q0 rule: norm.induct)
  case (1 x q0)
  show ?case
  proof (cases "9007199254740992 \<le> x")
    case True
    with 1 show ?thesis by (simp add: norm_halve)
  next
    case False
    show ?thesis
    proof (cases "x < 4503599627370496 \<and> - 1074 < q0")
      case True
      with False 1 show ?thesis by (simp add: norm_double)
    next
      case False
      with \<open>\<not> 9007199254740992 \<le> x\<close> 1 show ?thesis by (auto simp: norm.simps [of x q0])
    qed
  qed
qed

lemma rne_le: "x \<le> of_int n \<Longrightarrow> rne x \<le> n"
proof -
  assume a: "x \<le> of_int n"
  then have f: "\<lfloor>x\<rfloor> \<le> n" by (simp add: floor_le_iff)
  show ?thesis
  proof (cases "\<lfloor>x\<rfloor> = n")
    case True
    with a have "x - of_int \<lfloor>x\<rfloor> \<le> 0" by simp
    with True show ?thesis by (simp add: rne_def Let_def)
  next
    case False
    with f have "\<lfloor>x\<rfloor> + 1 \<le> n" by simp
    then show ?thesis by (simp add: rne_def Let_def)
  qed
qed

lemma rne_mono: "x \<le> y \<Longrightarrow> rne x \<le> rne y"
proof -
  assume a: "x \<le> y"
  then have f: "\<lfloor>x\<rfloor> \<le> \<lfloor>y\<rfloor>" by (rule floor_mono)
  show ?thesis
  proof (cases "\<lfloor>x\<rfloor> = \<lfloor>y\<rfloor>")
    case True
    with a have "x - of_int \<lfloor>x\<rfloor> \<le> y - of_int \<lfloor>y\<rfloor>" by simp
    with True show ?thesis by (auto simp: rne_def Let_def)
  next
    case False
    with f have "\<lfloor>x\<rfloor> + 1 \<le> \<lfloor>y\<rfloor>" by simp
    moreover have "rne x \<le> \<lfloor>x\<rfloor> + 1" by (simp add: rne_def Let_def)
    ultimately show ?thesis using rne_ge_floor [of y] by linarith
  qed
qed

lemma two_powi_mono: "p \<le> q \<Longrightarrow> (2::rat) powi p \<le> 2 powi q"
  by (rule power_int_increasing) simp_all

lemma two_powi_Suc: "(2::rat) powi (q + 1) = 2 * 2 powi q"
  by (simp add: power_int_add)

lemma rounded_mono:
  assumes "0 < x" "x \<le> x'" "norm x 0 = (y, q)" "norm x' 0 = (y', q')"
  shows "of_int (rne y) * 2 powi q \<le> of_int (rne y') * (2::rat) powi q'"
proof -
  from assms have x': "0 < x'" by simp
  note s = norm_spec [OF assms(1) _ assms(3)] norm_spec [OF x' _ assms(4)]
  from norm_value [OF assms(3)] have v: "y * 2 powi q = x" by simp
  from norm_value [OF assms(4)] have v': "y' * 2 powi q' = x'" by simp
  have pos: "\<And>k. (0::rat) < 2 powi k" by simp
  have le: "q \<le> q'"
  proof (rule ccontr)
    assume "\<not> q \<le> q'"
    then have g: "q' + 1 \<le> q" by simp
    with s have "4503599627370496 \<le> y" by auto
    then have "4503599627370496 * 2 powi q \<le> y * 2 powi q" using pos [of q] by simp
    moreover have "(2::rat) powi (q' + 1) \<le> 2 powi q" using g by (rule two_powi_mono)
    then have "4503599627370496 * (2::rat) powi (q' + 1) \<le> 4503599627370496 * 2 powi q" by simp
    moreover have "y' * 2 powi q' < 9007199254740992 * 2 powi q'" using s pos [of q'] by simp
    ultimately have "x' < x" using v v' by (simp add: two_powi_Suc)
    with assms show False by simp
  qed
  show ?thesis
  proof (cases "q = q'")
    case True
    with v v' assms(2) have "y * 2 powi q' \<le> y' * 2 powi q'" by simp
    then have "y \<le> y'" using pos [of q'] by simp
    then have "rne y \<le> rne y'" by (rule rne_mono)
    then have "rat_of_int (rne y) \<le> rat_of_int (rne y')" by simp
    then show ?thesis using pos [of q'] True by simp
  next
    case False
    with le have l: "q + 1 \<le> q'" by simp
    with s have b: "4503599627370496 \<le> y'" by auto
    then have "4503599627370496 \<le> \<lfloor>y'\<rfloor>" by linarith
    with rne_ge_floor [of y'] have "4503599627370496 \<le> rne y'" by linarith
    then have "(4503599627370496::rat) \<le> of_int (rne y')" by linarith
    then have hi: "4503599627370496 * 2 powi q' \<le> of_int (rne y') * (2::rat) powi q'"
      using pos [of q'] by simp
    from s have "y \<le> of_int 9007199254740992" by simp
    then have "rne y \<le> 9007199254740992" by (rule rne_le)
    then have "rat_of_int (rne y) \<le> 9007199254740992" by linarith
    then have lo: "of_int (rne y) * 2 powi q \<le> 9007199254740992 * (2::rat) powi q"
      using pos [of q] by simp
    have "(2::rat) powi (q + 1) \<le> 2 powi q'" using l by (rule two_powi_mono)
    then have "9007199254740992 * (2::rat) powi q \<le> 4503599627370496 * 2 powi q'"
      by (simp add: two_powi_Suc)
    with lo hi show ?thesis by linarith
  qed
qed

lemma fle_cases:
  "fle (Fin a) (Fin b) \<longleftrightarrow> a \<le> b"
  "fle (Fin a) PInf" "fle NInf (Fin b)" "fle NInf PInf" "fle PInf PInf" "fle NInf NInf"
  "\<not> fle PInf (Fin b)" "\<not> fle (Fin a) NInf" "\<not> fle PInf NInf"
  "\<not> fle NaN c" "\<not> fle c NaN"
  by (auto simp: fle_def) (cases c; simp)+

lemma round64_minus: "round64 (- x) = fneg (round64 x)"
  by (simp add: round64_def Let_def split: prod.splits)

lemma fle_fneg: "fle a b \<Longrightarrow> fle (fneg b) (fneg a)"
  by (cases a; cases b) (auto simp: fle_cases)

lemma round64_nonneg: "0 \<le> x \<Longrightarrow> fle (Fin 0) (round64 x)"
proof (cases "x = 0")
  case True
  then show ?thesis by (simp add: round64_def fle_def)
next
  case False
  assume "0 \<le> x"
  with False have x: "0 < x" by simp
  obtain y q where n: "norm \<bar>x\<bar> 0 = (y, q)" by (cases "norm \<bar>x\<bar> 0")
  have "0 \<le> fst (norm \<bar>x\<bar> 0)" by (intro norm_nonneg) simp
  with n have "0 \<le> \<lfloor>y\<rfloor>" by simp
  with rne_ge_floor [of y] have "0 \<le> rne y" by linarith
  then have "0 \<le> rat_of_int (rne y) * 2 powi q" by simp
  with x n show ?thesis by (auto simp: round64_def Let_def fle_cases)
qed

lemma round64_mono_pos:
  assumes "0 < x" "x \<le> x'"
  shows "fle (round64 x) (round64 x')"
proof -
  obtain y q where n: "norm x 0 = (y, q)" by (cases "norm x 0")
  obtain y' q' where n': "norm x' 0 = (y', q')" by (cases "norm x' 0")
  from rounded_mono [OF assms n n']
  have "of_int (rne y) * 2 powi q \<le> of_int (rne y') * (2::rat) powi q'" .
  with assms n n' show ?thesis by (auto simp: round64_def Let_def fle_cases)
qed

text \<open>Rounding keeps the order.\<close>

lemma round64_mono: "x \<le> x' \<Longrightarrow> fle (round64 x) (round64 x')"
proof -
  assume a: "x \<le> x'"
  consider "0 < x" | "x' < 0" | "x \<le> 0" "0 \<le> x'" by linarith
  then show ?thesis
  proof cases
    case 1
    with a show ?thesis by (simp add: round64_mono_pos)
  next
    case 2
    with a have "0 < - x'" "- x' \<le> - x" by simp_all
    then have "fle (round64 (- x')) (round64 (- x))" by (rule round64_mono_pos)
    then have "fle (fneg (fneg (round64 x))) (fneg (fneg (round64 x')))"
      unfolding round64_minus by (rule fle_fneg)
    moreover have "\<And>a. fneg (fneg a) = a" by (case_tac a) simp_all
    ultimately show ?thesis by simp
  next
    case 3
    then have "fle (Fin 0) (round64 (- x))" by (intro round64_nonneg) simp
    then have "fle (fneg (round64 (- x))) (fneg (Fin 0))" by (rule fle_fneg)
    moreover have "\<And>a. fneg (fneg a) = a" by (case_tac a) simp_all
    ultimately have "fle (round64 x) (Fin 0)" by (simp add: round64_minus)
    moreover from 3 have "fle (Fin 0) (round64 x')" by (intro round64_nonneg)
    ultimately show ?thesis by (rule fle_trans)
  qed
qed


subsection \<open>The numbers of the language\<close>

lemma two_powi_pos: "(0::rat) < 2 powi k"
  by simp

text \<open>A value with a significand of 53 bits is scaled to that significand.\<close>

lemma norm_unique:
  assumes "4503599627370496 \<le> y" "y < 9007199254740992" "- 1074 \<le> e"
  shows "norm (y * 2 powi e) 0 = (y, e)"
proof -
  obtain y' q' where n: "norm (y * 2 powi e) 0 = (y', q')" by (cases "norm (y * 2 powi e) 0")
  from assms have x: "0 < y * 2 powi e" by simp
  note s = norm_spec [OF x _ n]
  from norm_value [OF n] have v: "y' * 2 powi q' = y * 2 powi e" by simp
  have "q' = e"
  proof (rule ccontr)
    assume ne: "q' \<noteq> e"
    show False
    proof (cases "q' < e")
      case True
      then have "(2::rat) powi (q' + 1) \<le> 2 powi e" by (intro two_powi_mono) simp
      then have "2 * 2 powi q' \<le> (2::rat) powi e" by (simp add: two_powi_Suc)
      then have "y * (2 * 2 powi q') \<le> y * 2 powi e" using assms by simp
      with v have "(2 * y) * 2 powi q' \<le> y' * 2 powi q'" by (simp add: mult.assoc mult.left_commute)
      then have "2 * y \<le> y'" using two_powi_pos [of q'] by simp
      with assms s show False by simp
    next
      case False
      with ne have g: "e + 1 \<le> q'" by simp
      with assms s have b: "4503599627370496 \<le> y'" by auto
      from g have "(2::rat) powi (e + 1) \<le> 2 powi q'" by (rule two_powi_mono)
      then have "2 * 2 powi e \<le> (2::rat) powi q'" by (simp add: two_powi_Suc)
      then have "y' * (2 * 2 powi e) \<le> y' * 2 powi q'" using s by simp
      with v have "(2 * y') * 2 powi e \<le> y * 2 powi e" by (simp add: mult.assoc mult.left_commute)
      then have "2 * y' \<le> y" using two_powi_pos [of e] by simp
      with assms b show False by simp
    qed
  qed
  with v have "y' = y" by simp
  with \<open>q' = e\<close> n show ?thesis by simp
qed

lemma round64_values:
  "round64 1 = Fin 1" "round64 80 = Fin 80" "round64 100 = Fin 100"
  "round64 (4 / 5) = Fin (3602879701896397 / 4503599627370496)"
  "round64 (1 / 2) = Fin (1 / 2)"
  by (simp_all add: round64_eval)

text \<open>
  The percentage \<open>s / c * 100\<close> of the program, for finite numbers and a positive \<open>c\<close>: it
  is at least 100 when \<open>s\<close> is at least \<open>c\<close>, and at least 80 when \<open>s\<close> is at least four
  fifths of \<open>c\<close>.
\<close>

lemma times_100_mono:
  assumes "fle (Fin a) r"
  shows "fle (round64 (a * 100)) (fmul r (Fin 100))"
proof (cases r)
  case (Fin b)
  with assms have "a * 100 \<le> b * 100" by (simp add: fle_cases)
  then have "fle (round64 (a * 100)) (round64 (b * 100))" by (rule round64_mono)
  with Fin show ?thesis by simp
next
  case PInf
  have "fle (round64 (a * 100)) PInf"
    by (cases "round64 (a * 100)") (simp_all add: fle_cases round64_not_NaN)
  with PInf show ?thesis by simp
next
  case NInf
  with assms show ?thesis by (simp add: fle_cases)
next
  case NaN
  with assms show ?thesis by (simp add: fle_cases)
qed

lemma percentage_at_least_100:
  assumes "0 < c" "c \<le> s"
  shows "fle (Fin 100) (fmul (fdiv (Fin s) (Fin c)) (Fin 100))"
proof -
  from assms have "1 \<le> s / c" by simp
  then have "fle (round64 1) (round64 (s / c))" by (rule round64_mono)
  with assms have "fle (Fin 1) (fdiv (Fin s) (Fin c))" by (simp add: round64_values)
  from times_100_mono [OF this] show ?thesis by (simp add: round64_values)
qed

lemma percentage_at_least_80:
  assumes "0 < c" "4 / 5 * c \<le> s"
  shows "fle (Fin 80) (fmul (fdiv (Fin s) (Fin c)) (Fin 100))"
proof -
  from assms have "4 / 5 \<le> s / c" by (simp add: pos_le_divide_eq)
  then have "fle (round64 (4 / 5)) (round64 (s / c))" by (rule round64_mono)
  with assms have "fle (Fin (3602879701896397 / 4503599627370496)) (fdiv (Fin s) (Fin c))"
    by (simp add: round64_values)
  from times_100_mono [OF this]
  have "fle (round64 (3602879701896397 / 4503599627370496 * 100))
          (fmul (fdiv (Fin s) (Fin c)) (Fin 100))" .
  moreover have "fle (round64 80) (round64 (3602879701896397 / 4503599627370496 * 100))"
    by (rule round64_mono) simp
  ultimately show ?thesis by (auto simp: round64_values intro: fle_trans)
qed


lemma norm_unique_subnormal:
  assumes "0 < y" "y < 4503599627370496"
  shows "norm (y * 2 powi (- 1074)) 0 = (y, - 1074)"
proof -
  obtain y' q' where n: "norm (y * 2 powi (- 1074)) 0 = (y', q')"
    by (cases "norm (y * 2 powi (- 1074)) 0")
  from assms have x: "0 < y * 2 powi (- 1074)" by simp
  note s = norm_spec [OF x _ n]
  from norm_value [OF n] have v: "y' * 2 powi q' = y * 2 powi (- 1074)" by simp
  have "q' = - 1074"
  proof (rule ccontr)
    assume "q' \<noteq> - 1074"
    with s have g: "- 1074 + 1 \<le> q'" and b: "4503599627370496 \<le> y'" by auto
    from g have "(2::rat) powi (- 1074 + 1) \<le> 2 powi q'" by (rule two_powi_mono)
    then have "2 * 2 powi (- 1074) \<le> (2::rat) powi q'" by (simp only: two_powi_Suc)
    then have "y' * (2 * 2 powi (- 1074)) \<le> y' * 2 powi q'" using s by simp
    with v have "(2 * y') * 2 powi (- 1074) \<le> y * 2 powi (- 1074)"
      by (simp only: mult.assoc mult.left_commute)
    then have "2 * y' \<le> y" using two_powi_pos [of "- 1074"] by (simp only: mult_le_cancel_right_pos)
    with assms b show False by simp
  qed
  with v have "y' = y" by simp
  with \<open>q' = - 1074\<close> n show ?thesis by simp
qed

lemma rne_of_int: "rne (of_int m) = m"
  by (simp add: rne_def)

lemma rne_below_half: "x < of_int n - 1 / 2 \<Longrightarrow> rne x \<le> n - 1"
proof -
  assume a: "x < of_int n - 1 / 2"
  then have "x < of_int n" by linarith
  then have f: "\<lfloor>x\<rfloor> \<le> n - 1" by (simp add: floor_less_iff)
  show ?thesis
  proof (cases "\<lfloor>x\<rfloor> = n - 1")
    case True
    with a have "x - of_int \<lfloor>x\<rfloor> < 1 / 2" by simp
    with True show ?thesis by (simp add: rne_def Let_def)
  next
    case False
    with f have "\<lfloor>x\<rfloor> + 1 \<le> n - 1" by simp
    moreover have "rne x \<le> \<lfloor>x\<rfloor> + 1" by (simp add: rne_def Let_def)
    ultimately show ?thesis by linarith
  qed
qed

text \<open>A positive number of the language is a significand of at most 53 bits at an exponent.\<close>

lemma double_repr:
  assumes "is_double v" "0 < v"
  obtains m q where "v = of_int m * 2 powi q" "0 < m" "m < 9007199254740992" "- 1074 \<le> q"
    "4503599627370496 \<le> m \<or> q = - 1074"
proof -
  obtain y q where n: "norm v 0 = (y, q)" by (cases "norm v 0")
  have s: "0 < y \<and> y < 9007199254740992 \<and> - 1074 \<le> q \<and> (4503599627370496 \<le> y \<or> q = - 1074)"
    using norm_spec [OF assms(2) _ n] by simp
  from norm_value [OF n] have val: "y * 2 powi q = v" by simp
  from assms n have "of_int (rne y) * 2 powi q = v"
    by (auto simp: is_double_def round64_def Let_def split: if_splits)
  with val have "of_int (rne y) * (2::rat) powi q = y * 2 powi q" by simp
  then have y: "y = of_int (rne y)" by simp
  with s have "0 < rat_of_int (rne y)" "rat_of_int (rne y) < 9007199254740992"
    "4503599627370496 \<le> rat_of_int (rne y) \<or> q = - 1074" by simp_all
  then have "0 < rne y" "rne y < 9007199254740992" "4503599627370496 \<le> rne y \<or> q = - 1074"
    by linarith+
  moreover from val y have "v = of_int (rne y) * 2 powi q" by simp
  ultimately show ?thesis using s that by blast
qed

text \<open>The result of a rounding is a number of the language.\<close>

lemma is_double_scaled:
  assumes "0 < m" "m \<le> 9007199254740992" "- 1074 \<le> q" "4503599627370496 \<le> m \<or> q = - 1074"
    and "of_int m * 2 powi q < (2::rat) powi 1024"
  shows "is_double (of_int m * 2 powi q)"
proof -
  let ?w = "rat_of_int m * 2 powi q"
  from assms have w: "0 < ?w" by simp
  consider "m = 9007199254740992" | "4503599627370496 \<le> m" "m < 9007199254740992"
    | "m < 4503599627370496" using assms by linarith
  then have "\<exists>y e. norm ?w 0 = (y, e) \<and> of_int (rne y) * 2 powi e = ?w"
  proof cases
    case 1
    then have e: "?w = 4503599627370496 * 2 powi (q + 1)" by (simp add: two_powi_Suc)
    have "norm (4503599627370496 * 2 powi (q + 1)) 0 = (4503599627370496, q + 1)"
      using assms by (intro norm_unique) simp_all
    moreover have "rne 4503599627370496 = 4503599627370496"
      using rne_of_int [of 4503599627370496] by simp
    ultimately show ?thesis using e by simp
  next
    case 2
    then have "norm ?w 0 = (of_int m, q)" using assms by (intro norm_unique) simp_all
    then show ?thesis by (simp add: rne_of_int)
  next
    case 3
    with assms have q: "q = - 1074" by simp
    from 3 assms have "norm (of_int m * 2 powi (- 1074)) 0 = (of_int m, - 1074)"
      by (intro norm_unique_subnormal) simp_all
    with q show ?thesis by (simp add: rne_of_int)
  qed
  then obtain y e where "norm ?w 0 = (y, e)" "of_int (rne y) * 2 powi e = ?w" by blast
  with w assms(5) show ?thesis by (simp add: is_double_def round64_def Let_def)
qed

lemma is_double_minus: "is_double v \<Longrightarrow> is_double (- v)"
  by (simp add: is_double_def round64_minus)

lemma round64_is_double:
  assumes "round64 x = Fin v"
  shows "is_double v"
proof (cases "x = 0")
  case True
  with assms show ?thesis by (auto simp: round64_def is_double_def)
next
  case False
  obtain y q where n: "norm \<bar>x\<bar> 0 = (y, q)" by (cases "norm \<bar>x\<bar> 0")
  let ?w = "rat_of_int (rne y) * 2 powi q"
  from False have x: "0 < \<bar>x\<bar>" by simp
  note s = norm_spec [OF x _ n]
  from assms False n have v: "v = ?w \<or> v = - ?w" and small: "?w < 2 powi 1024"
    by (auto simp: round64_def Let_def split: if_splits)
  have "is_double ?w"
  proof (cases "rne y = 0")
    case True
    then show ?thesis by (simp add: is_double_def round64_def)
  next
    case False
    from s have "0 \<le> \<lfloor>y\<rfloor>" by simp
    with rne_ge_floor [of y] False have p: "0 < rne y" by linarith
    from s have "y \<le> of_int 9007199254740992" by simp
    then have u: "rne y \<le> 9007199254740992" by (rule rne_le)
    have "4503599627370496 \<le> rne y \<or> q = - 1074"
    proof (cases "4503599627370496 \<le> y")
      case True
      then have "4503599627370496 \<le> \<lfloor>y\<rfloor>" by linarith
      with rne_ge_floor [of y] show ?thesis by linarith
    next
      case False
      with s show ?thesis by simp
    qed
    with p u s small show ?thesis by (intro is_double_scaled) simp_all
  qed
  with v show ?thesis by (auto intro: is_double_minus)
qed

lemma fadd_is_double: "fadd a b = Fin v \<Longrightarrow> b \<noteq> Fin v \<or> is_double v \<Longrightarrow> is_double v"
  by (cases a; cases b) (auto simp: round64_is_double)

lemma float_sum_is_double: "float_sum xs = Fin v \<Longrightarrow> is_double v"
proof (cases xs rule: rev_cases)
  case Nil
  then show "float_sum xs = Fin v \<Longrightarrow> is_double v"
    by (auto simp: float_sum_def is_double_def round64_zero)
next
  case (snoc ys y)
  assume "float_sum xs = Fin v"
  with snoc have "fadd (float_sum ys) y = Fin v" by (simp add: float_sum_def)
  then show "is_double v"
    by (cases "float_sum ys"; cases y) (auto simp: round64_is_double)
qed

text \<open>
  Two positive numbers of the language, the smaller below the greater by at least half a
  unit in the last place of the greater.
\<close>

lemma double_gap:
  fixes s c :: rat
  assumes s: "s = of_int a * 2 powi p" "0 < a" "a < 9007199254740992" "- 1074 \<le> p"
    and c: "c = of_int b * 2 powi q" "0 < b" "- 1074 \<le> q" "4503599627370496 \<le> b \<or> q = - 1074"
    and lt: "s < c"
  shows "s + 2 powi (q - 1) \<le> c"
proof (cases "q \<le> p")
  case True
  define d where "d = nat (p - q)"
  with True have p: "p = q + int d" by simp
  have e: "(2::rat) powi p = 2 powi q * 2 ^ d"
    unfolding p by (simp add: power_int_add)
  from lt s c e have "rat_of_int (a * 2 ^ d) * 2 powi q < rat_of_int b * 2 powi q"
    by (simp add: mult.assoc mult.left_commute)
  then have "rat_of_int (a * 2 ^ d) < rat_of_int b" using two_powi_pos [of q] by simp
  then have "a * 2 ^ d + 1 \<le> b" by linarith
  then have "rat_of_int (a * 2 ^ d + 1) \<le> rat_of_int b" by (simp only: of_int_le_iff)
  then have "rat_of_int (a * 2 ^ d + 1) * 2 powi q \<le> rat_of_int b * 2 powi q"
    using two_powi_pos [of q] by simp
  then have "s + 2 powi q \<le> c" using s c e by (simp add: algebra_simps)
  moreover have "(2::rat) powi (q - 1) \<le> 2 powi q" by (intro two_powi_mono) simp
  ultimately show ?thesis by linarith
next
  case False
  define d where "d = nat (q - 1 - p)"
  with False have q: "q - 1 = p + int d" by simp
  with c s have b: "4503599627370496 \<le> b" by auto
  have e1: "(2::rat) powi (q - 1) = 2 powi p * 2 ^ d"
    unfolding q by (simp add: power_int_add)
  have "(2::rat) powi q = 2 * 2 powi (q - 1)" using two_powi_Suc [of "q - 1"] by simp
  with e1 have e: "(2::rat) powi q = 2 powi p * (2 * 2 ^ d)" by simp
  have n: "(1::int) \<le> 2 ^ d" by simp
  have "4503599627370496 * (2 * 2 ^ d) \<le> b * (2 * (2::int) ^ d)"
    using b by (intro mult_right_mono) simp_all
  with n s have "a + 2 ^ d \<le> b * (2 * 2 ^ d)" by linarith
  then have "rat_of_int (a + 2 ^ d) \<le> rat_of_int (b * (2 * 2 ^ d))" by (simp only: of_int_le_iff)
  then have "rat_of_int (a + 2 ^ d) * 2 powi p \<le> rat_of_int (b * (2 * 2 ^ d)) * 2 powi p"
    using two_powi_pos [of p] by simp
  then show ?thesis using s c e e1 by (simp add: algebra_simps)
qed

lemma quotient_below_one:
  assumes "is_double s" "is_double c" "0 < s" "s < c"
  shows "s / c < 1 - 1 / 18014398509481984"
proof -
  from assms have cpos: "0 < c" by simp
  obtain a p where s: "s = of_int a * 2 powi p" "0 < a" "a < 9007199254740992" "- 1074 \<le> p"
    using double_repr [OF assms(1,3)] by metis
  obtain b q where c: "c = of_int b * 2 powi q" "0 < b" "b < 9007199254740992" "- 1074 \<le> q"
    "4503599627370496 \<le> b \<or> q = - 1074"
    using double_repr [OF assms(2) cpos] by metis
  from double_gap [OF s c(1,2,4,5) assms(4)] have gap: "s + 2 powi (q - 1) \<le> c" .
  from c have "rat_of_int b < 9007199254740992" by linarith
  then have "c < 9007199254740992 * 2 powi q" using c two_powi_pos [of q] by simp
  also have "\<dots> = 18014398509481984 * 2 powi (q - 1)"
    using two_powi_Suc [of "q - 1"] by simp
  finally have "c / 18014398509481984 < 2 powi (q - 1)" by simp
  with gap have "s < c - c / 18014398509481984" by linarith
  then have "s < c * (1 - 1 / 18014398509481984)" by (simp add: algebra_simps)
  with cpos show ?thesis by (simp add: pos_divide_less_eq mult.commute)
qed

lemma round64_below_one:
  assumes "0 < t" "t < 1 - 1 / 18014398509481984"
  shows "fle (round64 t) (Fin (9007199254740991 / 9007199254740992))"
proof (cases "t \<le> 1 / 2")
  case True
  then have "fle (round64 t) (round64 (1 / 2))" by (rule round64_mono)
  moreover have "fle (Fin (1 / 2)) (Fin (9007199254740991 / 9007199254740992))"
    by (simp add: fle_cases)
  ultimately show ?thesis by (auto simp: round64_values intro: fle_trans)
next
  case False
  define y where "y = t * 9007199254740992"
  from False assms have y: "4503599627370496 \<le> y" "y < of_int 9007199254740992 - 1 / 2"
    by (simp_all add: y_def)
  then have y2: "y < 9007199254740992" by simp
  have t: "t = y * 2 powi (- 53)" by (simp add: y_def power_int_minus)
  have n: "norm (y * 2 powi (- 53)) 0 = (y, - 53)" using y(1) y2 by (intro norm_unique) simp_all
  from y(2) have "rne y \<le> 9007199254740992 - 1" by (rule rne_below_half)
  then have "rat_of_int (rne y) \<le> 9007199254740991" by linarith
  then have v: "rat_of_int (rne y) * 2 powi (- 53) \<le> 9007199254740991 / 9007199254740992"
    by (simp add: power_int_minus field_simps)
  then have "rat_of_int (rne y) * 2 powi (- 53) < 2 powi 1024" by simp
  with assms(1) n v show ?thesis
    unfolding t by (simp add: round64_def Let_def fle_cases del: power_int_minus)
qed

lemma times_100_upper:
  assumes "fle r (Fin u)"
  shows "fle (fmul r (Fin 100)) (round64 (u * 100))"
proof (cases r)
  case (Fin b)
  with assms have "b * 100 \<le> u * 100" by (simp add: fle_cases)
  then have "fle (round64 (b * 100)) (round64 (u * 100))" by (rule round64_mono)
  with Fin show ?thesis by simp
next
  case PInf
  with assms show ?thesis by (simp add: fle_cases)
next
  case NInf
  have "fle NInf (round64 (u * 100))"
    by (cases "round64 (u * 100)") (simp_all add: fle_cases round64_not_NaN)
  with NInf show ?thesis by simp
next
  case NaN
  with assms show ?thesis by (simp add: fle_cases)
qed

text \<open>
  For numbers of the language and a positive \<open>c\<close>, the percentage \<open>s / c * 100\<close> of the
  program is below 100 when \<open>s\<close> is below \<open>c\<close>.
\<close>

lemma percentage_below_100:
  assumes "is_double s" "is_double c" "0 < c" "s < c"
  shows "\<not> fle (Fin 100) (fmul (fdiv (Fin s) (Fin c)) (Fin 100))"
proof -
  let ?p = "fmul (fdiv (Fin s) (Fin c)) (Fin 100)"
  have q: "fle (fdiv (Fin s) (Fin c)) (Fin (9007199254740991 / 9007199254740992))"
  proof (cases "0 < s")
    case True
    from quotient_below_one [OF assms(1,2) True assms(4)]
    have "s / c < 1 - 1 / 18014398509481984" .
    moreover from True assms have "0 < s / c" by simp
    ultimately have "fle (round64 (s / c)) (Fin (9007199254740991 / 9007199254740992))"
      by (intro round64_below_one)
    with assms show ?thesis by simp
  next
    case False
    with assms have "s / c \<le> 0" by (simp add: divide_nonpos_pos)
    then have "fle (round64 (s / c)) (round64 0)" by (rule round64_mono)
    moreover have "fle (Fin 0) (Fin (9007199254740991 / 9007199254740992))"
      by (simp add: fle_cases)
    ultimately show ?thesis using assms by (auto simp: round64_zero intro: fle_trans)
  qed
  from times_100_upper [OF q]
  have "fle ?p (round64 (9007199254740991 / 9007199254740992 * 100))" .
  moreover have "round64 (9007199254740991 / 9007199254740992 * 100)
      = Fin (7036874417766399 / 70368744177664)"
    by (simp add: round64_eval)
  ultimately have "fle ?p (Fin (7036874417766399 / 70368744177664))" by simp
  then show ?thesis by (cases ?p) (simp_all add: fle_cases)
qed



section \<open>Properties of the calendar\<close>

lemma year_of_day_range:
  "DayFromYear (year_of_day y n) \<le> n \<and> n < DayFromYear (year_of_day y n + 1)"
proof (induction y n rule: year_of_day.induct)
  case (1 y n)
  then show ?case by (subst (1 2) year_of_day.simps) auto
qed



lemma YearFromDay_range:
  "DayFromYear (YearFromDay n) \<le> n \<and> n < DayFromYear (YearFromDay n + 1)"
  by (simp add: YearFromDay_def year_of_day_range)


lemma DayWithinYear_range: "0 \<le> DayWithinYear n \<and> DayWithinYear n < 365 + leap_days (YearFromDay n)"
  using YearFromDay_range [of n] DayFromYear_Suc [of "YearFromDay n"]
  by (auto simp: DayWithinYear_def DaysInYear_def leap_days_def)

lemma month_of_range: "0 \<le> month_of l dwy \<and> month_of l dwy \<le> 11"
  by (simp add: month_of_def)

lemma MakeDay_parts: "MakeDay (YearFromDay n) (MonthFromDay n) (DateFromDay n) = n"
proof -
  have "0 \<le> MonthFromDay n" "MonthFromDay n \<le> 11"
    using month_of_range by (simp_all add: MonthFromDay_def)
  then have "MonthFromDay n div 12 = 0" "MonthFromDay n mod 12 = MonthFromDay n" by simp_all
  then show ?thesis by (simp add: MakeDay_def DateFromDay_def DayWithinYear_def Let_def)
qed

lemma MakeDay_shift:
  "MakeDay (YearFromDay n) (MonthFromDay n) (DateFromDay n - i) = n - i"
proof -
  have "MakeDay (YearFromDay n) (MonthFromDay n) (DateFromDay n - i)
        = MakeDay (YearFromDay n) (MonthFromDay n) (DateFromDay n) - i"
    by (simp add: MakeDay_def Let_def)
  then show ?thesis by (simp add: MakeDay_parts)
qed









lemma setDate_shift: "setDate tza t (getDate tza t - i) = t - i * msPerDay"
proof -
  have "MakeDay (getFullYear tza t) (getMonth tza t) (getDate tza t - i)
        = (t + tza) div msPerDay - i"
    by (simp add: getFullYear_def getMonth_def getDate_def MakeDay_shift)
  then have "setDate tza t (getDate tza t - i)
        = ((t + tza) div msPerDay - i) * msPerDay + (t + tza) mod msPerDay - tza"
    by (simp add: setDate_def)
  also have "\<dots> = (t + tza) div msPerDay * msPerDay + (t + tza) mod msPerDay - i * msPerDay - tza"
    by (simp add: algebra_simps)
  also have "\<dots> = t - i * msPerDay" by simp
  finally show ?thesis .
qed

section \<open>Properties of the validators\<close>

subsection \<open>validateDate\<close>










subsection \<open>validateDescription\<close>

text \<open>
  The description pattern \<^verbatim>\<open>/^\S(?:.*\S)?$/\<close> on an arbitrary string. The greedy \<open>.*\<close>
  stops before the first line terminator, so the states it leaves are the suffixes of the
  text from a position not after that terminator.
\<close>

lemma clear_no_groups: "clear_captures [] cs = cs"
  by (simp add: clear_captures_def)

lemma matches_Bol_later: "matches ic (Seq Bol r) (Some x, s, cs) = []"
  by simp

lemma exec_at_Bol_later: "exec_at ic (Seq Bol r) (Some x) s = None"
  by (induction s arbitrary: x) simp_all

lemma test_anchored:
  "exec_at ic (Seq Bol r) None s \<noteq> None \<longleftrightarrow> matches ic r (None, s, Map.empty) \<noteq> []"
  by (cases s) (auto simp: exec_at_Bol_later split: list.splits)

lemma star_dot_rests:
  "(fst \<circ> snd) ` set (matches False (Star True dot) (p, s, cs))
   = {drop k s |k. k \<le> length (takeWhile (\<lambda>c. \<not> is_line_terminator c) s)}"
proof (induction s arbitrary: p)
  case Nil
  then show ?case by (simp add: dot_def clear_no_groups)
next
  case (Cons x xs)
  show ?case
  proof (cases "is_line_terminator x")
    case True
    then have "matches False (Star True dot) (p, x # xs, cs) = [(p, x # xs, cs)]"
      by (simp add: dot_def clear_no_groups cls_matches_def)
    with True show ?thesis by (simp del: matches.simps(6))
  next
    case False
    have "matches False (Star True dot) (p, x # xs, cs)
          = matches False (Star True dot) (Some x, xs, cs) @ [(p, x # xs, cs)]"
      using False
      by (subst matches.simps(6))
         (simp add: dot_def clear_no_groups cls_matches_def del: matches.simps(6))
    then have "(fst \<circ> snd) ` set (matches False (Star True dot) (p, x # xs, cs))
          = insert (x # xs) ((fst \<circ> snd) ` set (matches False (Star True dot) (Some x, xs, cs)))"
      by (simp del: matches.simps(6))
    also have "\<dots> = insert (x # xs)
        {drop k xs |k. k \<le> length (takeWhile (\<lambda>c. \<not> is_line_terminator c) xs)}"
      by (simp only: Cons.IH)
    also have "\<dots> = {drop k (x # xs) |k.
        k \<le> length (takeWhile (\<lambda>c. \<not> is_line_terminator c) (x # xs))}"
    proof -
      have "\<And>r. (\<exists>k. r = drop k (x # xs) \<and> k \<le> Suc (length (takeWhile (\<lambda>c. \<not> is_line_terminator c) xs)))
          \<longleftrightarrow> r = x # xs \<or> (\<exists>k. r = drop k xs \<and> k \<le> length (takeWhile (\<lambda>c. \<not> is_line_terminator c) xs))"
      proof -
        fix r
        show "(\<exists>k. r = drop k (x # xs) \<and> k \<le> Suc (length (takeWhile (\<lambda>c. \<not> is_line_terminator c) xs)))
          \<longleftrightarrow> r = x # xs \<or> (\<exists>k. r = drop k xs \<and> k \<le> length (takeWhile (\<lambda>c. \<not> is_line_terminator c) xs))"
          (is "?L \<longleftrightarrow> ?R")
        proof
          assume ?L
          then obtain k where k: "r = drop k (x # xs)"
            "k \<le> Suc (length (takeWhile (\<lambda>c. \<not> is_line_terminator c) xs))" by blast
          then show ?R by (cases k) auto
        next
          assume ?R
          then show ?L
          proof
            assume "r = x # xs"
            then have "r = drop 0 (x # xs)" by simp
            then show ?L by blast
          next
            assume "\<exists>k. r = drop k xs \<and> k \<le> length (takeWhile (\<lambda>c. \<not> is_line_terminator c) xs)"
            then obtain k where "r = drop k xs"
              "k \<le> length (takeWhile (\<lambda>c. \<not> is_line_terminator c) xs)" by blast
            then have "r = drop (Suc k) (x # xs)
              \<and> Suc k \<le> Suc (length (takeWhile (\<lambda>c. \<not> is_line_terminator c) xs))" by simp
            then show ?L by blast
          qed
        qed
      qed
      with False show ?thesis by auto
    qed
    finally show ?thesis .
  qed
qed


lemma takeWhile_length_ge:
  "n \<le> length (takeWhile P xs) \<longleftrightarrow> n \<le> length xs \<and> (\<forall>c\<in>set (take n xs). P c)"
proof (induction xs arbitrary: n)
  case Nil
  then show ?case by simp
next
  case (Cons x xs)
  then show ?case by (cases n) auto
qed

lemma drop_singleton:
  "drop k xs = [c] \<longleftrightarrow> xs \<noteq> [] \<and> k = length xs - 1 \<and> c = last xs"
proof (induction xs arbitrary: k)
  case Nil
  then show ?case by simp
next
  case (Cons x xs)
  show ?case
  proof (cases k)
    case 0
    then show ?thesis by (cases xs) auto
  next
    case (Suc j)
    with Cons show ?thesis by (cases xs) auto
  qed
qed

lemma star_dot_then_nonspace:
  "(\<exists>st\<in>set (matches False (Seq (Star True dot) (Cls (\<lambda>c. \<not> is_space c))) (p, s, cs)).
      fst (snd st) = [])
   \<longleftrightarrow> s \<noteq> [] \<and> \<not> is_space (last s) \<and> (\<forall>c\<in>set (butlast s). \<not> is_line_terminator c)"
proof -
  let ?T = "\<lambda>s. length (takeWhile (\<lambda>c. \<not> is_line_terminator c) s)"
  have one: "\<And>st. (\<exists>st'\<in>set (matches False (Cls (\<lambda>c. \<not> is_space c)) st). fst (snd st') = [])
      \<longleftrightarrow> (\<exists>c. fst (snd st) = [c] \<and> \<not> is_space c)"
  proof -
    fix st :: mstate
    obtain q r ds where st: "st = (q, r, ds)" by (cases st) auto
    show "(\<exists>st'\<in>set (matches False (Cls (\<lambda>c. \<not> is_space c)) st). fst (snd st') = [])
      \<longleftrightarrow> (\<exists>c. fst (snd st) = [c] \<and> \<not> is_space c)"
      unfolding st by (cases r) (auto simp: cls_matches_def)
  qed
  have "(\<exists>st\<in>set (matches False (Seq (Star True dot) (Cls (\<lambda>c. \<not> is_space c))) (p, s, cs)).
           fst (snd st) = [])
        \<longleftrightarrow> (\<exists>st\<in>set (matches False (Star True dot) (p, s, cs)).
               \<exists>c. fst (snd st) = [c] \<and> \<not> is_space c)"
    using one by (simp del: matches.simps(3) matches.simps(6))
  also have "\<dots> \<longleftrightarrow> (\<exists>r\<in>(fst \<circ> snd) ` set (matches False (Star True dot) (p, s, cs)).
               \<exists>c. r = [c] \<and> \<not> is_space c)"
    by (simp del: matches.simps(6))
  also have "\<dots> \<longleftrightarrow> (\<exists>k\<le>?T s. \<exists>c. drop k s = [c] \<and> \<not> is_space c)"
    unfolding star_dot_rests by blast
  also have "\<dots> \<longleftrightarrow> s \<noteq> [] \<and> \<not> is_space (last s) \<and> length s - 1 \<le> ?T s"
    unfolding drop_singleton by blast
  also have "\<dots> \<longleftrightarrow> s \<noteq> [] \<and> \<not> is_space (last s)
                  \<and> (\<forall>c\<in>set (butlast s). \<not> is_line_terminator c)"
    unfolding takeWhile_length_ge by (simp add: butlast_conv_take)
  finally show ?thesis .
qed

lemma matches_Eol_end: "matches ic (Seq Eol Empty) st \<noteq> [] \<longleftrightarrow> fst (snd st) = []"
  by (cases st) simp

lemma test_REGEX_description:
  "test REGEX_description v
   \<longleftrightarrow> v \<noteq> [] \<and> \<not> is_space (hd v)
       \<and> (tl v = [] \<or> \<not> is_space (last v) \<and> (\<forall>c\<in>set (butlast (tl v)). \<not> is_line_terminator c))"
proof (cases v)
  case Nil
  then show ?thesis
    by (simp add: test_def REGEX_description_def seqs_def ignoreCase_def)
next
  case (Cons x xs)
  let ?S = "Cls (\<lambda>c. \<not> is_space c)"
  let ?R = "Seq (Star True dot) ?S"
  have "test REGEX_description v
        \<longleftrightarrow> matches False (Seq ?S (Seq (Opt ?R) (Seq Eol Empty))) (None, v, Map.empty) \<noteq> []"
    using test_anchored [of False "Seq ?S (Seq (Opt ?R) (Seq Eol Empty))" v]
    by (simp add: test_def REGEX_description_def seqs_def ignoreCase_def
        del: matches.simps exec_at.simps)
  also have "\<dots> \<longleftrightarrow> \<not> is_space x
      \<and> (\<exists>st\<in>set (matches False (Opt ?R) (Some x, xs, Map.empty)). fst (snd st) = [])"
    unfolding Cons
    by (subst matches.simps(4))
       (auto simp: cls_matches_def matches_Eol_end
             matches.simps(4) [of False "Opt ?R" "Seq Eol Empty"]
             simp del: matches.simps(6) matches.simps(5) matches.simps(4))
  also have "\<dots> \<longleftrightarrow> \<not> is_space x
      \<and> (xs = [] \<or> (\<exists>st\<in>set (matches False ?R (Some x, xs, Map.empty)). fst (snd st) = []))"
    unfolding Opt_def by (subst matches.simps(5)) (auto simp del: matches.simps(4) matches.simps(6))
  also have "\<dots> \<longleftrightarrow> \<not> is_space x
      \<and> (xs = [] \<or> \<not> is_space (last xs) \<and> (\<forall>c\<in>set (butlast xs). \<not> is_line_terminator c))"
    unfolding star_dot_then_nonspace by blast
  finally show ?thesis using Cons by auto
qed


text \<open>
  The pattern accepts a string exactly when it is not empty, its first and last characters
  are not white space and no character strictly between them is a line terminator.
\<close>

lemma test_REGEX_description_iff:
  "test REGEX_description v
   \<longleftrightarrow> v \<noteq> [] \<and> \<not> is_space (hd v) \<and> \<not> is_space (last v)
       \<and> (\<forall>c\<in>set (butlast (tl v)). \<not> is_line_terminator c)"
proof (cases v)
  case Nil
  then show ?thesis using test_REGEX_description [of v] by simp
next
  case (Cons x xs)
  then show ?thesis using test_REGEX_description [of v] by (cases xs) auto
qed

text \<open>
  So \<open>validateDescription\<close> accepts exactly the descriptions that are not blank, neither
  start nor end with white space, have no line terminator in between and repeat no word.
\<close>

lemma validateDescription_valid:
  "valid (validateDescription v)
   \<longleftrightarrow> trim v \<noteq> [] \<and> \<not> is_space (hd v) \<and> \<not> is_space (last v)
       \<and> (\<forall>c\<in>set (butlast (tl v)). \<not> is_line_terminator c)
       \<and> \<not> test REGEX_duplicateWord v"
proof -
  have "trim v \<noteq> [] \<Longrightarrow> v \<noteq> []" by (auto simp: trim_def)
  then show ?thesis
    by (auto simp: validateDescription_def accept_def reject_def test_REGEX_description_iff)
qed


lemma validateDescription_the_the_book:
  "validateDescription ''the the book'' = reject MESSAGES_description_duplicate"
  by code_simp

lemma validateDescription_the_theme: "validateDescription ''the theme'' = accept"
  by code_simp

lemma validateDescription_line_break:
  "validateDescription [CHR ''a'', CHR 0x0A, CHR ''b''] = reject MESSAGES_description_invalid"
  by code_simp

lemma line_break_description_facts:
  "trim [CHR ''a'', CHR 0x0A, CHR ''b''] \<noteq> [] \<and> \<not> is_space CHR ''a'' \<and> \<not> is_space CHR ''b''
   \<and> \<not> test REGEX_duplicateWord [CHR ''a'', CHR 0x0A, CHR ''b'']"
  by code_simp

text \<open>
  Claim C7. The two examples of the claim hold: \<open>the the book\<close> is rejected with the
  duplicate-word message and \<open>the theme\<close> is accepted. The description \<open>a\<close>, line feed,
  \<open>b\<close> is not blank, its first and last characters are not white space and it has no
  repeated word, and \<open>validateDescription\<close> rejects it, with the message that a description
  cannot start or end with a space: the \<open>.\<close> of the pattern does not match a line
  terminator.
\<close>

theorem validateDescription_rejects_line_break:
  "validateDescription [CHR ''a'', CHR 0x0A, CHR ''b''] = reject MESSAGES_description_invalid
   \<and> trim [CHR ''a'', CHR 0x0A, CHR ''b''] \<noteq> []
   \<and> \<not> is_space CHR ''a'' \<and> \<not> is_space CHR ''b''
   \<and> \<not> test REGEX_duplicateWord [CHR ''a'', CHR 0x0A, CHR ''b'']
   \<and> validateDescription ''the the book'' = reject MESSAGES_description_duplicate
   \<and> validateDescription ''the theme'' = accept"
  using validateDescription_line_break line_break_description_facts
    validateDescription_the_the_book validateDescription_the_theme
  by blast

subsection \<open>validateTransaction\<close>

lemma validateAmount_zero: "validateAmount ''0'' = accept"
  by code_simp

lemma validateAmount_empty: "validateAmount [] = reject MESSAGES_amount_required"
  by (simp add: validateAmount_def)

text \<open>
  Claim C8. \<open>validateTransaction\<close> replaces a falsy amount by the empty string before it
  validates it: for every record whose amount is the number 0 it reports the
  amount-required message for the amount field (and the record is not valid), although
  \<open>validateAmount\<close> accepts the string \<open>0\<close>.
\<close>

theorem validateTransaction_amount_zero:
  assumes "fd_amount transaction = JNum (Fin 0)"
  shows "tv_errors (validateTransaction nts tza transaction) Amount = Some MESSAGES_amount_required
         \<and> \<not> tv_valid (validateTransaction nts tza transaction)
         \<and> validateAmount ''0'' = accept"
  using assms validateAmount_zero
  by (auto simp: validateTransaction_def Let_def amount_text_def falsy_def validateAmount_empty
      add_error_def reject_def)

theorem validateTransaction_amount_zero_witness:
  "fd_amount \<lparr> fd_description = ''Lunch'', fd_amount = JNum (Fin 0), fd_category = ''Food'',
                fd_date = ''2025-09-29'' \<rparr> = JNum (Fin 0)
   \<and> tv_errors (validateTransaction number_text 0
        \<lparr> fd_description = ''Lunch'', fd_amount = JNum (Fin 0), fd_category = ''Food'',
          fd_date = ''2025-09-29'' \<rparr>) Amount = Some MESSAGES_amount_required"
  using validateTransaction_amount_zero [of "\<lparr> fd_description = ''Lunch'', fd_amount = JNum (Fin 0),
    fd_category = ''Food'', fd_date = ''2025-09-29'' \<rparr>" number_text 0]
  by simp


section \<open>Properties of the search engine\<close>

subsection \<open>compileRegex and searchTransactions\<close>

lemma compileRegex_never_throws: "\<exists>r. compileRegex h input caseSensitive = Inr r"
  by (simp add: compileRegex_def split: sum.splits)

lemma parse_plus_plus: "parse_terms ''++'' = None"
  by code_simp

text \<open>
  Claim C1, as the program has it. For every host, every transaction sequence and every
  pattern the host's syntax refuses, \<open>compileRegex\<close> returns \<open>null\<close> and throws nothing, and
  \<open>searchTransactions\<close> with that result returns the sequence it was given, unfiltered.
\<close>

theorem compileRegex_invalid_pattern:
  assumes "parse_pattern h input = None"
  shows "compileRegex h input caseSensitive = Inr None
         \<and> searchTransactions h txns None = txns"
  using assms by (simp add: compileRegex_def new_RegExp_def)

theorem compileRegex_invalid_pattern_witness:
  "parse_pattern (example_host 0 0) ''++'' = None
   \<and> compileRegex (example_host 0 0) ''++'' False = Inr None
   \<and> searchTransactions (example_host 0 0) [txn ''Coffee'' (Fin 3) ''Food'' ''2025-09-29''] None
       = [txn ''Coffee'' (Fin 3) ''Food'' ''2025-09-29'']"
  using compileRegex_invalid_pattern [of "example_host 0 0" "''++''" False
      "[txn ''Coffee'' (Fin 3) ''Food'' ''2025-09-29'']"] parse_plus_plus
  by (simp add: example_host_def)

text \<open>
  Claim C1 as stated fails: the pattern \<open>++\<close> is refused, \<open>compileRegex\<close> returns \<open>null\<close>,
  and the search of a sequence of one transaction with \<open>null\<close> is not empty.
\<close>

theorem searchTransactions_invalid_pattern_not_empty:
  "parse_pattern (example_host 0 0) ''++'' = None
   \<and> compileRegex (example_host 0 0) ''++'' False = Inr None
   \<and> searchTransactions (example_host 0 0) [txn ''Coffee'' (Fin 3) ''Food'' ''2025-09-29''] None \<noteq> []"
  using parse_plus_plus by (simp add: example_host_def compileRegex_def new_RegExp_def)

subsection \<open>highlight\<close>

lemma amp_compiled: "compileRegex (example_host 0 0) ''amp'' False = Inr (Some amp_regexp)"
  by (simp add: compileRegex_def new_RegExp_def example_host_def trim_def is_space_def code_def
        parse_atom_def is_syntax_char_def bsl_def amp_regexp_def)

lemma amp_not_in_raw_text: "\<not> test amp_regexp ''a&b''"
  by code_simp

lemma amp_highlight: "highlight (example_host 0 0) ''a&b'' (Some amp_regexp) = ''a&<mark>amp</mark>;b''"
  by code_simp

lemma compileRegex_result:
  assumes "compileRegex h input caseSensitive = Inr (Some r)"
  shows "parse_pattern h (source r) = Some (pattern r)
         \<and> (CHR ''i'' \<in> set (flags r) \<longleftrightarrow> \<not> caseSensitive)"
  using assms
  by (auto simp: compileRegex_def new_RegExp_def split: if_splits option.splits)

text \<open>
  Claim C10. Without a matcher \<open>highlight\<close> returns the escaped text. With one (and a text
  that is not empty) it escapes the text first and replaces the matches found in the
  escaped string, so the matcher runs on the escaped form; this holds of every matcher
  whose source the host parses, and so of every matcher \<open>compileRegex\<close> returns. For the
  text \<open>a&b\<close> and the pattern \<open>amp\<close>, which does not match the text, the markers wrap
  the letters of the entity \<open>&amp;\<close> that the escaping introduced.
\<close>

theorem highlight_matches_escaped_text:
  "highlight h text None = escapeHtml text
   \<and> (text \<noteq> [] \<and> parse_pattern h (source r) = Some p \<longrightarrow>
        highlight h text (Some r)
        = replace_global (CHR ''i'' \<in> set (flags r)) p mark None (escapeHtml text))
   \<and> (text \<noteq> [] \<and> compileRegex h input caseSensitive = Inr (Some r) \<longrightarrow>
        highlight h text (Some r)
        = replace_global (\<not> caseSensitive) (pattern r) mark None (escapeHtml text))
   \<and> compileRegex (example_host 0 0) ''amp'' False = Inr (Some amp_regexp)
   \<and> \<not> test amp_regexp ''a&b''
   \<and> highlight (example_host 0 0) ''a&b'' (Some amp_regexp) = ''a&<mark>amp</mark>;b''"
proof -
  have a: "highlight h text None = escapeHtml text"
    by (simp add: highlight_def)
  have b: "\<And>p. text \<noteq> [] \<and> parse_pattern h (source r) = Some p \<longrightarrow>
        highlight h text (Some r)
        = replace_global (CHR ''i'' \<in> set (flags r)) p mark None (escapeHtml text)"
    by (cases "CHR ''i'' \<in> set (flags r)")
       (simp_all add: highlight_def makeGlobalRegex_def new_RegExp_def String_replace_def
        ignoreCase_def Let_def)
  have c: "text \<noteq> [] \<and> compileRegex h input caseSensitive = Inr (Some r) \<longrightarrow>
        highlight h text (Some r)
        = replace_global (\<not> caseSensitive) (pattern r) mark None (escapeHtml text)"
    using b [of "pattern r"] compileRegex_result [of h input caseSensitive r] by auto
  from a b [of p] c amp_compiled amp_not_in_raw_text amp_highlight show ?thesis by blast
qed

theorem highlight_matches_escaped_text_witness:
  "''a&b'' \<noteq> [] \<and> parse_pattern (example_host 0 0) (source amp_regexp) = Some (pattern amp_regexp)
   \<and> highlight (example_host 0 0) ''a&b'' (Some amp_regexp)
       = replace_global True (pattern amp_regexp) mark None (escapeHtml ''a&b'')"
  using highlight_matches_escaped_text [of "example_host 0 0" "''a&b''" amp_regexp
      "pattern amp_regexp"]
  by (simp add: example_host_def amp_regexp_def parse_atom_def is_syntax_char_def bsl_def)

subsection \<open>sortTransactions\<close>

lemma insert_by_hd:
  "hd (insert_by cmp x ys) = x
   \<or> (ys \<noteq> [] \<and> positive (cmp x (hd ys)) \<and> hd (insert_by cmp x ys) = hd ys)"
  by (cases ys) auto

lemma insert_by_not_Nil: "insert_by cmp x ys \<noteq> []"
  by (cases ys) auto

text \<open>
  A list is in order when no element has a positive comparison with its successor.
  Insertion keeps a list in order when the comparison is never positive both ways.
\<close>

lemma insert_by_in_order:
  assumes anti: "\<And>a b. positive (cmp a b) \<Longrightarrow> \<not> positive (cmp b a)"
    and "successively (\<lambda>a b. \<not> positive (cmp a b)) ys"
  shows "successively (\<lambda>a b. \<not> positive (cmp a b)) (insert_by cmp x ys)"
  using assms(2)
proof (induction ys)
  case Nil
  then show ?case by simp
next
  case (Cons y ys)
  show ?case
  proof (cases "positive (cmp x y)")
    case True
    from Cons have tl: "successively (\<lambda>a b. \<not> positive (cmp a b)) (insert_by cmp x ys)"
      by (cases ys) auto
    have "\<not> positive (cmp y (hd (insert_by cmp x ys)))"
      using insert_by_hd [of cmp x ys] True anti Cons.prems by (cases ys) auto
    with tl True show ?thesis
      using insert_by_not_Nil [of cmp x ys] by (cases "insert_by cmp x ys") auto
  next
    case False
    with Cons.prems show ?thesis by simp
  qed
qed

lemma Array_sort_in_order:
  assumes "\<And>a b. positive (cmp a b) \<Longrightarrow> \<not> positive (cmp b a)"
  shows "successively (\<lambda>a b. \<not> positive (cmp a b)) (Array_sort cmp xs)"
  by (induction xs) (simp_all add: Array_sort_def insert_by_in_order assms)

lemma Array_sort_fixpoint:
  "successively (\<lambda>a b. \<not> positive (cmp a b)) xs \<Longrightarrow> Array_sort cmp xs = xs"
proof (induction xs)
  case Nil
  then show ?case by (simp add: Array_sort_def)
next
  case (Cons x xs)
  then have "Array_sort cmp xs = xs" by (cases xs) auto
  then have "Array_sort cmp (x # xs) = insert_by cmp x xs" by (simp add: Array_sort_def)
  with Cons.prems show ?case by (cases xs) auto
qed

lemma Array_sort_idempotent:
  assumes "\<And>a b. positive (cmp a b) \<Longrightarrow> \<not> positive (cmp b a)"
  shows "Array_sort cmp (Array_sort cmp xs) = Array_sort cmp xs"
  by (rule Array_sort_fixpoint) (rule Array_sort_in_order [OF assms])

lemma mset_insert_by: "mset (insert_by cmp x ys) = add_mset x (mset ys)"
  by (induction ys) auto

lemma mset_Array_sort: "mset (Array_sort cmp xs) = mset xs"
  by (induction xs) (simp_all add: Array_sort_def mset_insert_by)

lemma positive_date_diff:
  "positive (date_diff h s t)
   \<longleftrightarrow> (case (Date_parse h s, Date_parse h t) of (Some a, Some b) \<Rightarrow> b < a | _ \<Rightarrow> False)"
  by (auto simp: positive_def date_diff_def round64_of_int_positive simp del: of_int_diff
      split: option.splits)

lemma date_desc_antisymmetric:
  "positive (date_diff h (date b) (date a)) \<Longrightarrow> \<not> positive (date_diff h (date a) (date b))"
  by (auto simp: positive_date_diff split: option.splits)

text \<open>
  When the comparison is the order of a key, insertion is the stable sort of the library,
  \<open>sort_key\<close>: the only sorted permutation that keeps elements with equal keys in their
  order.
\<close>

lemma insert_by_insort_key:
  fixes f :: "'a \<Rightarrow> 'k::linorder"
  assumes "\<And>y. y \<in> set ys \<Longrightarrow> positive (cmp x y) \<longleftrightarrow> f y < f x"
  shows "insert_by cmp x ys = insort_key f x ys"
  using assms by (induction ys) auto

lemma Array_sort_sort_key:
  fixes f :: "'a \<Rightarrow> 'k::linorder"
  assumes "\<And>x y. x \<in> set xs \<Longrightarrow> y \<in> set xs \<Longrightarrow> positive (cmp x y) \<longleftrightarrow> f y < f x"
  shows "Array_sort cmp xs = sort_key f xs"
  using assms
proof (induction xs)
  case Nil
  then show ?case by (simp add: Array_sort_def)
next
  case (Cons x xs)
  then have ih: "Array_sort cmp xs = sort_key f xs" by simp
  have "insert_by cmp x (sort_key f xs) = insort_key f x (sort_key f xs)"
    by (rule insert_by_insort_key) (simp add: Cons.prems)
  with ih show ?case by (simp add: Array_sort_def sort_key_def)
qed

lemma stable_sort_unique:
  fixes f :: "'a \<Rightarrow> 'k::linorder"
  assumes "\<And>x y. x \<in> set xs \<Longrightarrow> y \<in> set xs \<Longrightarrow> positive (cmp x y) \<longleftrightarrow> f y < f x"
    and "mset ys = mset xs"
    and "sorted (map f ys)"
    and "\<And>k. filter (\<lambda>x. f x = k) ys = filter (\<lambda>x. f x = k) xs"
  shows "ys = Array_sort cmp xs"
proof -
  have "sort_key f xs = ys"
  proof (rule properties_for_sort_key)
    show "mset ys = mset xs" by (rule assms(2))
    show "sorted (map f ys)" by (rule assms(3))
    fix k
    assume "k \<in> set ys"
    have "[x\<leftarrow>ys. f k = f x] = [x\<leftarrow>ys. f x = f k]" by (rule filter_cong) auto
    also have "\<dots> = [x\<leftarrow>xs. f x = f k]" by (rule assms(4))
    also have "\<dots> = [x\<leftarrow>xs. f k = f x]" by (rule filter_cong) auto
    finally show "[x\<leftarrow>ys. f k = f x] = [x\<leftarrow>xs. f k = f x]" .
  qed
  with Array_sort_sort_key [of xs cmp f, OF assms(1)] show ?thesis by simp
qed

text \<open>
  When every date parses, the comparison of \<open>date-desc\<close> is the descending order of the
  time values, and the result is the stable sort of the input by descending time.
\<close>

lemma Array_sort_date_desc:
  assumes "\<forall>t\<in>set xs. Date_parse h (date t) \<noteq> None"
  shows "Array_sort (\<lambda>a b. date_diff h (date b) (date a)) xs
         = sort_key (\<lambda>t. - time_value h t) xs"
proof (rule Array_sort_sort_key)
  fix x y
  assume "x \<in> set xs" "y \<in> set xs"
  with assms have "Date_parse h (date x) \<noteq> None" "Date_parse h (date y) \<noteq> None" by auto
  then obtain u v where "Date_parse h (date x) = Some u" "Date_parse h (date y) = Some v"
    by auto
  then show "positive (date_diff h (date y) (date x)) \<longleftrightarrow> - time_value h y < - time_value h x"
    by (simp add: positive_date_diff time_value_def)
qed

lemma Array_sort_date_desc_sorted:
  assumes "\<forall>t\<in>set xs. Date_parse h (date t) \<noteq> None"
  shows "sorted_wrt (\<lambda>a b. time_value h b \<le> time_value h a)
           (Array_sort (\<lambda>a b. date_diff h (date b) (date a)) xs)"
proof -
  have "sorted (map (\<lambda>t. - time_value h t) (sort_key (\<lambda>t. - time_value h t) xs))"
    by (rule sorted_sort_key)
  then show ?thesis
    by (simp add: Array_sort_date_desc [OF assms] sorted_map)
qed

lemma Array_sort_date_desc_stable:
  assumes "\<forall>t\<in>set xs. Date_parse h (date t) \<noteq> None"
  shows "filter (\<lambda>t. time_value h t = k) (Array_sort (\<lambda>a b. date_diff h (date b) (date a)) xs)
         = filter (\<lambda>t. time_value h t = k) xs"
proof -
  have "filter (\<lambda>t. - time_value h t = - k) (sort_key (\<lambda>t. - time_value h t) xs)
        = filter (\<lambda>t. - time_value h t = - k) xs"
    by (rule sort_key_stable)
  then show ?thesis by (simp add: Array_sort_date_desc [OF assms])
qed

lemma sort_comparison_date_desc:
  "sort_comparison h ''date-desc'' = Some (\<lambda>a b. date_diff h (date b) (date a))"
  by (simp add: sort_comparison_def)

lemma sortTransactions_date_desc:
  "sortTransactions h hp a ''date-desc''
   = (hp\<lparr> arrays := (arrays hp)(next_ref hp \<mapsto>
              Array_sort (\<lambda>a b. date_diff h (date b) (date a)) (elements hp a)),
          next_ref := Suc (next_ref hp) \<rparr>, next_ref hp)"
  by (simp add: sortTransactions_def array_copy_def sort_in_place_def sort_comparison_date_desc
      elements_def)

text \<open>
  For every sort key, known or not: the result is a new array, every array in use before
  the call is as it was, and the result has the elements of the input, each as often.
\<close>

lemma sortTransactions_new_array:
  assumes "sortTransactions h hp a sortBy = (hp', r)"
  shows "r = next_ref hp \<and> (\<forall>b. b \<noteq> next_ref hp \<longrightarrow> elements hp' b = elements hp b)
         \<and> mset (elements hp' r) = mset (elements hp a)"
proof (cases "sort_comparison h sortBy")
  case None
  with assms show ?thesis
    by (auto simp: sortTransactions_def array_copy_def elements_def)
next
  case (Some cmp)
  with assms show ?thesis
    by (auto simp: sortTransactions_def array_copy_def sort_in_place_def elements_def
        mset_Array_sort)
qed

text \<open>
  Claim C6. The dates of the records are calendar dates, which the host parses. Let
  \<open>sortTransactions\<close> with the key \<open>date-desc\<close> sort the array at a reference \<open>a\<close> in
  use, giving the array at \<open>r1\<close>, and sort that one again, giving the array at \<open>r2\<close>.
  The second result has the elements of the first in the same order. The first result is
  the stable sort of the input by descending time: it is in descending order of the time
  values, records with the same time value keep their order, and it has the elements of the
  input, each as often. Both calls leave the array they were given as it was, and the
  results are new arrays. And for every sort key \<open>sortBy\<close>, known or not, the call returns
  a new array with the elements of the input and leaves every array in use, the input
  among them, as it was.
\<close>

theorem sortTransactions_date_desc_idempotent:
  assumes "a < next_ref hp"
    and "\<forall>t\<in>set (elements hp a). Date_parse h (date t) \<noteq> None"
    and "sortTransactions h hp a ''date-desc'' = (hp1, r1)"
    and "sortTransactions h hp1 r1 ''date-desc'' = (hp2, r2)"
    and "sortTransactions h hp a sortBy = (hp3, r3)"
  shows "elements hp2 r2 = elements hp1 r1
         \<and> sorted_wrt (\<lambda>x y. time_value h y \<le> time_value h x) (elements hp1 r1)
         \<and> (\<forall>k. filter (\<lambda>t. time_value h t = k) (elements hp1 r1)
                = filter (\<lambda>t. time_value h t = k) (elements hp a))
         \<and> mset (elements hp1 r1) = mset (elements hp a)
         \<and> elements hp1 a = elements hp a \<and> elements hp2 a = elements hp a
         \<and> elements hp2 r1 = elements hp1 r1 \<and> r1 \<noteq> a \<and> r2 \<noteq> a \<and> r2 \<noteq> r1
         \<and> r3 = next_ref hp \<and> r3 \<noteq> a
         \<and> (\<forall>b. b < next_ref hp \<longrightarrow> elements hp3 b = elements hp b)
         \<and> elements hp3 a = elements hp a
         \<and> mset (elements hp3 r3) = mset (elements hp a)"
proof -
  let ?cmp = "\<lambda>a b. date_diff h (date b) (date a)"
  have idem: "Array_sort ?cmp (Array_sort ?cmp (elements hp a)) = Array_sort ?cmp (elements hp a)"
    by (rule Array_sort_idempotent) (rule date_desc_antisymmetric)
  from assms(1,3) have one: "elements hp1 r1 = Array_sort ?cmp (elements hp a)"
    "elements hp1 a = elements hp a" "r1 = next_ref hp" "next_ref hp1 = Suc (next_ref hp)"
    by (auto simp: sortTransactions_date_desc elements_def)
  from assms(1,4) one idem have two: "elements hp2 r2 = elements hp1 r1"
    "elements hp2 a = elements hp a" "elements hp2 r1 = elements hp1 r1" "r2 = Suc (next_ref hp)"
    by (auto simp: sortTransactions_date_desc elements_def)
  from one assms(2) have sorted:
    "sorted_wrt (\<lambda>x y. time_value h y \<le> time_value h x) (elements hp1 r1)"
    by (simp add: Array_sort_date_desc_sorted)
  from one assms(2) have stable:
    "\<forall>k. filter (\<lambda>t. time_value h t = k) (elements hp1 r1)
         = filter (\<lambda>t. time_value h t = k) (elements hp a)"
    by (simp add: Array_sort_date_desc_stable)
  from one have perm: "mset (elements hp1 r1) = mset (elements hp a)"
    by (simp add: mset_Array_sort)
  note any = sortTransactions_new_array [OF assms(5)]
  from any assms(1) have three: "r3 = next_ref hp" "r3 \<noteq> a"
    "\<forall>b. b < next_ref hp \<longrightarrow> elements hp3 b = elements hp b"
    "elements hp3 a = elements hp a" "mset (elements hp3 r3) = mset (elements hp a)"
    by auto
  from assms(1) one two have refs: "r1 \<noteq> a" "r2 \<noteq> a" "r2 \<noteq> r1" by auto
  from two one sorted stable perm refs three show ?thesis by blast
qed

lemma parse_heap_dates:
  "parse_iso_date ''2025-09-21'' = Some 1758412800000"
  "parse_iso_date ''2025-09-22'' = Some 1758499200000"
  by code_simp+

lemma example_sorted_once:
  "map description
     (elements (fst (sortTransactions (example_host 0 0) example_heap 0 ''date-desc''))
               (snd (sortTransactions (example_host 0 0) example_heap 0 ''date-desc'')))
   = [''b'', ''a'', ''c'']"
  by (simp add: sortTransactions_date_desc example_heap_def elements_def Array_sort_def
      positive_date_diff example_host_def parse_heap_dates txn_def)

lemma example_amount_order:
  "map description
     (elements (fst (sortTransactions (example_host 0 0) example_heap 0 ''amount-asc''))
               (snd (sortTransactions (example_host 0 0) example_heap 0 ''amount-asc'')))
   = [''c'', ''b'', ''a'']"
  by (simp add: sortTransactions_def array_copy_def sort_in_place_def sort_comparison_def
      example_heap_def elements_def Array_sort_def positive_def fsub_def txn_def round64_eval)

theorem sortTransactions_date_desc_idempotent_witness:
  "0 < next_ref example_heap
   \<and> map (Date_parse (example_host 0 0) \<circ> date) (elements example_heap 0)
      = [Some 1758412800000, Some 1758499200000, Some 1758412800000]
   \<and> map description
        (elements (fst (sortTransactions (example_host 0 0) example_heap 0 ''date-desc''))
                  (snd (sortTransactions (example_host 0 0) example_heap 0 ''date-desc'')))
      = [''b'', ''a'', ''c'']
   \<and> elements
        (fst (sortTransactions (example_host 0 0)
               (fst (sortTransactions (example_host 0 0) example_heap 0 ''date-desc''))
               (snd (sortTransactions (example_host 0 0) example_heap 0 ''date-desc''))
               ''date-desc''))
        (snd (sortTransactions (example_host 0 0)
               (fst (sortTransactions (example_host 0 0) example_heap 0 ''date-desc''))
               (snd (sortTransactions (example_host 0 0) example_heap 0 ''date-desc''))
               ''date-desc''))
      = elements (fst (sortTransactions (example_host 0 0) example_heap 0 ''date-desc''))
                 (snd (sortTransactions (example_host 0 0) example_heap 0 ''date-desc''))
   \<and> elements (fst (sortTransactions (example_host 0 0) example_heap 0 ''date-desc'')) 0
      = elements example_heap 0
   \<and> map description
        (elements (fst (sortTransactions (example_host 0 0) example_heap 0 ''amount-asc''))
                  (snd (sortTransactions (example_host 0 0) example_heap 0 ''amount-asc'')))
      = [''c'', ''b'', ''a'']
   \<and> elements (fst (sortTransactions (example_host 0 0) example_heap 0 ''amount-asc'')) 0
      = elements example_heap 0"
proof -
  have pos: "0 < next_ref example_heap" by (simp add: example_heap_def)
  have dates: "map (Date_parse (example_host 0 0) \<circ> date) (elements example_heap 0)
      = [Some 1758412800000, Some 1758499200000, Some 1758412800000]"
    by (simp add: example_heap_def elements_def example_host_def parse_heap_dates txn_def)
  have parse: "\<forall>t\<in>set (elements example_heap 0). Date_parse (example_host 0 0) (date t) \<noteq> None"
    by (simp add: example_heap_def elements_def example_host_def parse_heap_dates txn_def)
  note th = sortTransactions_date_desc_idempotent [OF pos parse prod.collapse [symmetric]
      prod.collapse [symmetric] prod.collapse [symmetric], where sortBy = "''amount-asc''"]
  from th pos dates example_sorted_once example_amount_order show ?thesis by blast
qed


section \<open>Properties of the statistics\<close>

subsection \<open>Tables\<close>

lemma map_of_replace:
  "map_of (map (\<lambda>p. if fst p = k then (k, v) else p) obj) k'
   = (if k' = k \<and> k \<in> fst ` set obj then Some v else map_of obj k')"
proof (induction obj)
  case Nil
  then show ?case by simp
next
  case (Cons p obj)
  have "\<And>b. (k, b) \<in> set obj \<Longrightarrow> k \<in> fst ` set obj" by force
  with Cons show ?case by (cases p) auto
qed

lemma map_of_assign: "map_of (assign k v obj) k' = (if k' = k then Some v else map_of obj k')"
proof (cases "k \<in> fst ` set obj")
  case True
  then show ?thesis by (simp add: assign_def map_of_replace)
next
  case False
  then have "map_of obj k = None" by (simp add: map_of_eq_None_iff)
  with False show ?thesis by (auto simp: assign_def map_add_def split: option.splits)
qed

lemma keys_assign:
  "map fst (assign k v obj) = (if k \<in> fst ` set obj then map fst obj else map fst obj @ [k])"
  by (auto simp: assign_def intro!: map_idI)

lemma categoryTotals_snoc:
  "categoryTotals (txns @ [t]) = add_to_category (category t) (amount t) (categoryTotals txns)"
  by (simp add: categoryTotals_def)

lemma map_of_add_to_category:
  "map_of (add_to_category cat a obj) k =
     (if k \<noteq> cat then map_of obj k
      else (case map_of obj cat of
              Some (Num n) \<Rightarrow> Some (Num (fadd (if n = NaN then Fin 0 else n) a))
            | Some Text \<Rightarrow> Some Text
            | None \<Rightarrow> if cat \<notin> set Object_prototype_names then Some (Num (fadd (Fin 0) a))
                      else if cat = ''__proto__'' then None else Some Text))"
  by (auto simp: add_to_category_def Let_def map_of_assign falsy_def
      split: option.splits total.splits)

lemma float_sum_snoc: "float_sum (xs @ [x]) = fadd (float_sum xs) x"
  by (simp add: float_sum_def)

lemma float_sum_not_NaN: "\<forall>x\<in>set xs. finite_number x \<Longrightarrow> float_sum xs \<noteq> NaN"
proof (induction xs rule: rev_induct)
  case Nil
  then show ?case by (simp add: float_sum_def)
next
  case (snoc x xs)
  then obtain b where "x = Fin b" by (cases x) (auto simp: finite_number_def)
  with snoc show ?case by (simp add: float_sum_snoc fadd_not_NaN)
qed

lemma category_sum_absent: "c \<notin> category ` set txns \<Longrightarrow> category_sum txns c = Fin 0"
proof -
  assume "c \<notin> category ` set txns"
  then have "filter (\<lambda>t. category t = c) txns = []" by (auto simp: filter_empty_conv)
  then show ?thesis by (simp add: category_sum_def float_sum_def)
qed

lemma category_sum_snoc:
  "category_sum (txns @ [t]) c
   = (if category t = c then fadd (category_sum txns c) (amount t) else category_sum txns c)"
  by (simp add: category_sum_def float_sum_snoc)

lemma category_sum_not_NaN:
  "\<forall>t\<in>set txns. finite_number (amount t) \<Longrightarrow> category_sum txns c \<noteq> NaN"
  unfolding category_sum_def by (rule float_sum_not_NaN) auto

text \<open>
  When every amount is finite, the table holds, for a category that is not a member of
  \<open>Object.prototype\<close>, the sum of its amounts.
\<close>

lemma categoryTotals_lookup:
  assumes "c \<notin> set Object_prototype_names"
    and "\<forall>t\<in>set txns. finite_number (amount t)"
  shows "map_of (categoryTotals txns) c
         = (if c \<in> category ` set txns then Some (Num (category_sum txns c)) else None)"
  using assms(2)
proof (induction txns rule: rev_induct)
  case Nil
  then show ?case by (simp add: categoryTotals_def)
next
  case (snoc t txns)
  then have ih: "map_of (categoryTotals txns) c
         = (if c \<in> category ` set txns then Some (Num (category_sum txns c)) else None)"
    and fin: "\<forall>t\<in>set txns. finite_number (amount t)" by auto
  show ?case
  proof (cases "category t = c")
    case True
    with ih assms(1) category_sum_not_NaN [OF fin, of c] show ?thesis
      by (simp add: categoryTotals_snoc map_of_add_to_category category_sum_snoc
          category_sum_absent)
  next
    case False
    with ih assms(1) show ?thesis
      by (simp add: categoryTotals_snoc map_of_add_to_category category_sum_snoc)
  qed
qed

lemma key_set_assign: "fst ` set (assign k v obj) = insert k (fst ` set obj)"
proof -
  have "fst ` set (assign k v obj) = set (map fst (assign k v obj))" by simp
  also have "\<dots> = insert k (fst ` set obj)" by (subst keys_assign) auto
  finally show ?thesis .
qed

lemma add_to_category_cases:
  "add_to_category cat a obj =
     (case map_of obj cat of
        Some (Num n) \<Rightarrow>
          assign cat (Num (fadd (if n = NaN then Fin 0 else n) a))
            (if falsy n then assign cat (Num (Fin 0)) obj else obj)
      | Some Text \<Rightarrow> obj
      | None \<Rightarrow> if cat \<notin> set Object_prototype_names
                then assign cat (Num (fadd (Fin 0) a)) (assign cat (Num (Fin 0)) obj)
                else if cat = ''__proto__'' then obj else assign cat Text obj)"
  by (auto simp: add_to_category_def Let_def map_of_assign falsy_def
      split: option.splits total.splits)

lemma keys_add_to_category:
  "map fst (add_to_category cat a obj)
   = (if cat \<in> fst ` set obj \<or> cat = ''__proto__'' then map fst obj else map fst obj @ [cat])"
proof (cases "map_of obj cat")
  case None
  then have n: "cat \<notin> fst ` set obj" by (simp add: map_of_eq_None_iff)
  have proto: "''__proto__'' \<in> set Object_prototype_names"
    by (simp add: Object_prototype_names_def)
  show ?thesis
  proof (cases "cat \<notin> set Object_prototype_names")
    case True
    with proto have "cat \<noteq> ''__proto__''" by blast
    with None n True show ?thesis
      by (simp add: add_to_category_cases keys_assign key_set_assign)
  next
    case False
    with None n show ?thesis
      by (simp add: add_to_category_cases keys_assign)
  qed
next
  case (Some v)
  then have k: "cat \<in> fst ` set obj" by (metis map_of_eq_None_iff option.distinct(1))
  with Some show ?thesis
    by (cases v) (simp_all add: add_to_category_cases keys_assign key_set_assign)
qed

lemma first_occurrences_snoc:
  "first_occurrences (xs @ [x])
   = (if x \<in> set xs then first_occurrences xs else first_occurrences xs @ [x])"
  by (simp add: first_occurrences_def)

text \<open>The keys of the table are the categories in the order of their first transaction.\<close>

lemma keys_categoryTotals:
  "map fst (categoryTotals txns)
   = first_occurrences (filter (\<lambda>c. c \<noteq> ''__proto__'') (map category txns))"
proof (induction txns rule: rev_induct)
  case Nil
  then show ?case by (simp add: categoryTotals_def first_occurrences_def)
next
  case (snoc t txns)
  have s: "set (first_occurrences (filter (\<lambda>c. c \<noteq> ''__proto__'') (map category txns)))
           = {c \<in> category ` set txns. c \<noteq> ''__proto__''}"
    by (auto simp: first_occurrences_def)
  from snoc have "fst ` set (categoryTotals txns) = {c \<in> category ` set txns. c \<noteq> ''__proto__''}"
    by (metis s list.set_map)
  with snoc show ?case
    by (auto simp: categoryTotals_snoc keys_add_to_category first_occurrences_snoc)
qed

lemma Object_keys_not_index:
  "filter (\<lambda>k. \<not> is_array_index k) (Object_keys obj)
   = filter (\<lambda>k. \<not> is_array_index k) (map fst obj)"
proof -
  have "filter (\<lambda>k. \<not> is_array_index k)
          (sort_key digits_value (filter is_array_index (map fst obj))) = []"
    by (auto simp: filter_empty_conv)
  then show ?thesis by (simp add: Object_keys_def)
qed

lemma set_Object_keys: "set (Object_keys obj) = fst ` set obj"
  by (auto simp: Object_keys_def)

subsection \<open>The top category\<close>

text \<open>
  The loop keeps the first key whose number is greater than every number before it: the
  amount it returns is the starting amount or greater, no key holds a greater number, and
  no key before the one it returns holds a number as great.
\<close>

lemma top_loop_result:
  "top_loop obj keys (tc, ta) = (rc, ra) \<Longrightarrow>
     (ra = ta \<or> fless ta ra)
     \<and> (\<forall>k\<in>set keys. \<forall>a. number_of obj k = Some a \<longrightarrow> \<not> fless ra a)
     \<and> (if ra = ta then rc = tc
         else \<exists>pre post. keys = pre @ rc # post \<and> number_of obj rc = Some ra
                \<and> (\<forall>k\<in>set pre. \<forall>a. number_of obj k = Some a \<longrightarrow> \<not> fle ra a))"
proof (induction keys arbitrary: tc ta)
  case Nil
  then show ?case by simp
next
  case (Cons k keys)
  show ?case
  proof (cases "\<exists>a. number_of obj k = Some a \<and> fless ta a")
    case True
    then obtain a where a: "number_of obj k = Some a" "fless ta a" by blast
    then have m: "map_of obj k = Some (Num a)"
      by (auto simp: number_of_def split: option.splits total.splits)
    with a Cons.prems have run: "top_loop obj keys (k, a) = (rc, ra)" by simp
    note ih = Cons.IH [OF run]
    from ih a have lt: "fless ta ra" by (auto intro: fless_trans)
    then have ne: "ra \<noteq> ta" by (auto simp: fless_irrefl)
    from ih have here: "\<not> fless ra a" by (auto simp: fless_irrefl dest: fless_asym)
    with ih a have bound: "\<forall>k'\<in>set (k # keys). \<forall>b. number_of obj k' = Some b \<longrightarrow> \<not> fless ra b"
      by auto
    have "\<exists>pre post. k # keys = pre @ rc # post \<and> number_of obj rc = Some ra
        \<and> (\<forall>k'\<in>set pre. \<forall>b. number_of obj k' = Some b \<longrightarrow> \<not> fle ra b)"
    proof (cases "ra = a")
      case True
      with ih have rc: "rc = k" by simp
      have "k # keys = [] @ k # keys" by simp
      moreover have "\<forall>k'\<in>set []. \<forall>b. number_of obj k' = Some b \<longrightarrow> \<not> fle ra b" by simp
      ultimately show ?thesis using a True rc by blast
    next
      case False
      with ih obtain pre post where p: "keys = pre @ rc # post" "number_of obj rc = Some ra"
        "\<forall>k\<in>set pre. \<forall>a. number_of obj k = Some a \<longrightarrow> \<not> fle ra a" by auto
      from ih False have "fless a ra" by simp
      then have "\<not> fle ra a" by (rule fless_not_fle)
      with p a have "k # keys = (k # pre) @ rc # post"
        and "\<forall>k'\<in>set (k # pre). \<forall>b. number_of obj k' = Some b \<longrightarrow> \<not> fle ra b" by auto
      with p show ?thesis by blast
    qed
    with bound lt ne show ?thesis by simp
  next
    case False
    then have le: "\<And>a. number_of obj k = Some a \<Longrightarrow> \<not> fless ta a" by force
    from False Cons.prems have run: "top_loop obj keys (tc, ta) = (rc, ra)"
      by (auto simp: number_of_def split: option.splits total.splits if_splits)
    note ih = Cons.IH [OF run]
    have here: "\<And>a. number_of obj k = Some a \<Longrightarrow> \<not> fless ra a"
    proof
      fix a
      assume n: "number_of obj k = Some a" and l: "fless ra a"
      from ih have "ra = ta \<or> fless ta ra" by simp
      with l have "fless ta a" by (auto intro: fless_trans)
      with le [OF n] show False by simp
    qed
    with ih have bound: "\<forall>k'\<in>set (k # keys). \<forall>b. number_of obj k' = Some b \<longrightarrow> \<not> fless ra b"
      by auto
    show ?thesis
    proof (cases "ra = ta")
      case True
      with ih bound show ?thesis by simp
    next
      case False
      with ih obtain pre post where p: "keys = pre @ rc # post" "number_of obj rc = Some ra"
        "\<forall>k\<in>set pre. \<forall>a. number_of obj k = Some a \<longrightarrow> \<not> fle ra a" by auto
      from ih False have lt: "fless ta ra" by simp
      have "\<And>a. number_of obj k = Some a \<Longrightarrow> \<not> fle ra a"
      proof
        fix a
        assume n: "number_of obj k = Some a" and l: "fle ra a"
        from lt l have "fless ta a" by (rule fless_fle_trans)
        with le [OF n] show False by simp
      qed
      with p have "k # keys = (k # pre) @ rc # post"
        and "\<forall>k'\<in>set (k # pre). \<forall>b. number_of obj k' = Some b \<longrightarrow> \<not> fle ra b" by auto
      with p have "\<exists>pre post. k # keys = pre @ rc # post \<and> number_of obj rc = Some ra
        \<and> (\<forall>k'\<in>set pre. \<forall>b. number_of obj k' = Some b \<longrightarrow> \<not> fle ra b)" by blast
      with ih bound False show ?thesis by simp
    qed
  qed
qed

lemma top_loop_unchanged:
  "\<forall>k\<in>set keys. \<forall>a. number_of obj k = Some a \<longrightarrow> \<not> fless ta a \<Longrightarrow>
   top_loop obj keys (tc, ta) = (tc, ta)"
  by (induction keys) (auto simp: number_of_def split: option.splits total.splits)

lemma stats_topCategory_eq:
  "stats_topCategory (calculateStats h st)
   = fst (top_loop (categoryTotals (transactions st))
            (Object_keys (categoryTotals (transactions st))) (''None'', Fin 0))"
  by (simp add: calculateStats_def Let_def)

lemma number_of_categoryTotals:
  assumes "c \<notin> set Object_prototype_names"
    and "\<forall>t\<in>set txns. finite_number (amount t)"
  shows "number_of (categoryTotals txns) c
         = (if c \<in> category ` set txns then Some (category_sum txns c) else None)"
  by (simp add: number_of_def categoryTotals_lookup [OF assms])

lemma numbers_zero:
  assumes "\<forall>t\<in>set txns. amount t = Fin 0"
  shows "number_of (categoryTotals txns) k = Some a \<Longrightarrow> a = Fin 0"
  using assms
proof (induction txns arbitrary: a rule: rev_induct)
  case Nil
  then show ?case by (simp add: categoryTotals_def number_of_def)
next
  case (snoc t txns)
  then have ih: "\<And>b. number_of (categoryTotals txns) k = Some b \<Longrightarrow> b = Fin 0"
    and z: "amount t = Fin 0" by auto
  from snoc.prems(1) ih z show ?case
    by (auto simp: categoryTotals_snoc number_of_def map_of_add_to_category round64_zero
        split: option.splits total.splits if_splits)
qed


text \<open>
  Claim C9. When every amount is 0, no category total is above the starting value 0 of
  the search for the maximum, so no category replaces \<open>None\<close>: for every collection in
  which every amount is 0 (empty or not), \<open>topCategory\<close> is \<open>None\<close>.
\<close>

theorem calculateStats_all_amounts_zero:
  assumes "\<forall>t\<in>set (transactions st). amount t = Fin 0"
  shows "stats_topCategory (calculateStats h st) = ''None''"
proof -
  have "\<forall>k\<in>set (Object_keys (categoryTotals (transactions st))).
          \<forall>a. number_of (categoryTotals (transactions st)) k = Some a \<longrightarrow> \<not> fless (Fin 0) a"
    using numbers_zero [OF assms] by (auto simp: fless_irrefl)
  then show ?thesis by (simp add: stats_topCategory_eq top_loop_unchanged)
qed

theorem calculateStats_all_amounts_zero_witness:
  "transactions \<lparr> transactions = [txn ''Water'' (Fin 0) ''Food'' ''2025-09-29''],
                  budgetCap = Fin 0 \<rparr> \<noteq> []
   \<and> amount (txn ''Water'' (Fin 0) ''Food'' ''2025-09-29'') = Fin 0
   \<and> stats_topCategory (calculateStats (example_host 0 example_clock)
        \<lparr> transactions = [txn ''Water'' (Fin 0) ''Food'' ''2025-09-29''], budgetCap = Fin 0 \<rparr>)
      = ''None''"
  using calculateStats_all_amounts_zero [of "\<lparr> transactions = [txn ''Water'' (Fin 0) ''Food''
      ''2025-09-29''], budgetCap = Fin 0 \<rparr>" "example_host 0 example_clock"]
  by (simp add: txn_def)

subsection \<open>Examples of the totals\<close>

lemmas table_eval = categoryTotals_def add_to_category_cases assign_def
  Object_prototype_names_def falsy_def txn_def round64_eval

lemma food_books_totals:
  "categoryTotals food_books = [(''Food'', Num (Fin 50)), (''Books'', Num (Fin 10))]"
  by (simp add: food_books_def table_eval)

lemma two_keys:
  "Object_keys [(''Food'', a), (''Books'', b)] = [''Food'', ''Books'']"
  "Object_keys [(''B'', a), (''A'', b)] = [''B'', ''A'']"
  "Object_keys [(''A'', a), (''B'', b)] = [''A'', ''B'']"
  by (simp_all add: Object_keys_def is_array_index_def is_digit_def code_def)

lemma food_books_top:
  "stats_topCategory (calculateStats h \<lparr> transactions = food_books, budgetCap = Fin 0 \<rparr>) = ''Food''"
  by (simp add: stats_topCategory_eq food_books_totals two_keys)

text \<open>
  The numbers of the literals 0.1, 0.2 and 0.3, and the rounded sum of the first two, which
  is greater than the third.
\<close>

lemma lit_tenths:
  "lit (1 / 10) = Fin (3602879701896397 / 36028797018963968)"
  "lit (1 / 5) = Fin (3602879701896397 / 18014398509481984)"
  "lit (3 / 10) = Fin (5404319552844595 / 18014398509481984)"
  "lit (2 / 5) = Fin (3602879701896397 / 9007199254740992)"
  by (simp_all add: round64_eval)

lemma tenths_totals:
  "categoryTotals tenths
   = [(''B'', Num (Fin (5404319552844595 / 18014398509481984))),
      (''A'', Num (Fin (1351079888211149 / 4503599627370496)))]"
  by (simp add: tenths_def lit_tenths table_eval)

lemma tenths_top:
  "stats_topCategory (calculateStats h \<lparr> transactions = tenths, budgetCap = Fin 0 \<rparr>) = ''A''"
  by (simp add: stats_topCategory_eq tenths_totals two_keys)

text \<open>
  The amounts 0.1, 0.2, 0.3 of A and 0.4, 0.2 of B: the sum of the numbers of A is less
  than that of B, the rounded totals are equal, and the first category is kept.
\<close>

lemma tied_totals:
  "categoryTotals tied
   = [(''A'', Num (Fin (1351079888211149 / 2251799813685248))),
      (''B'', Num (Fin (1351079888211149 / 2251799813685248)))]"
  by (simp add: tied_def lit_tenths table_eval)

lemma tied_top:
  "stats_topCategory (calculateStats h \<lparr> transactions = tied, budgetCap = Fin 0 \<rparr>) = ''A''"
  by (simp add: stats_topCategory_eq tied_totals two_keys)

lemma tied_exact_sums:
  "(3602879701896397 / 36028797018963968 + 3602879701896397 / 18014398509481984
      + 5404319552844595 / 18014398509481984 :: rat)
   < 3602879701896397 / 9007199254740992 + 3602879701896397 / 18014398509481984"
  by simp

text \<open>
  Claim C3, as the program has it. The sum of the amounts of a category is formed in the
  order of the collection, each addition rounded to a number. For every transaction
  collection, with the table \<open>T\<close> of the category totals and its keys \<open>K\<close> in the order
  of \<open>Object.keys\<close>: when every amount is finite, a category that is not a member of
  \<open>Object.prototype\<close> holds the sum of its amounts; if no category holds a number above 0
  (as for the empty collection, where the loop ends with \<open>None\<close> and the amount 0),
  \<open>topCategory\<close> is \<open>None\<close>; if some category holds a number above 0, \<open>topCategory\<close> is
  a key that holds a number above 0, no key holds a greater number, and no key before it
  in \<open>K\<close> holds a number as great (the first key wins a tie). The keys that are not array
  indices stand in \<open>K\<close> in the order of the first transaction of their category. For
  Food 30, Food 20, Books 10 the totals are Food 50 and Books 10 and \<open>topCategory\<close> is
  Food. For B 0.3, A 0.1, A 0.2 the rounded sum of A is greater than 0.3 and
  \<open>topCategory\<close> is A. For A 0.1, A 0.2, A 0.3, B 0.4, B 0.2 the rounded totals are
  equal and \<open>topCategory\<close> is A, the first.
\<close>

theorem calculateStats_topCategory:
  fixes h st
  defines "T \<equiv> categoryTotals (transactions st)"
  defines "K \<equiv> Object_keys (categoryTotals (transactions st))"
  defines "winner \<equiv> stats_topCategory (calculateStats h st)"
  shows "((\<forall>t\<in>set (transactions st). finite_number (amount t)) \<longrightarrow>
           (\<forall>c. c \<notin> set Object_prototype_names \<longrightarrow>
              number_of T c = (if c \<in> category ` set (transactions st)
                               then Some (category_sum (transactions st) c) else None)))
    \<and> ((\<forall>k\<in>set K. \<forall>a. number_of T k = Some a \<longrightarrow> \<not> fless (Fin 0) a) \<longrightarrow> winner = ''None'')
    \<and> ((\<exists>k\<in>set K. \<exists>a. number_of T k = Some a \<and> fless (Fin 0) a) \<longrightarrow>
         (\<exists>pre post a. K = pre @ winner # post \<and> number_of T winner = Some a \<and> fless (Fin 0) a
            \<and> (\<forall>k\<in>set K. \<forall>b. number_of T k = Some b \<longrightarrow> \<not> fless a b)
            \<and> (\<forall>k\<in>set pre. \<forall>b. number_of T k = Some b \<longrightarrow> \<not> fle a b)))
    \<and> (transactions st = [] \<longrightarrow> top_loop T K (''None'', Fin 0) = (''None'', Fin 0))
    \<and> filter (\<lambda>k. \<not> is_array_index k) K
        = filter (\<lambda>k. \<not> is_array_index k)
            (first_occurrences (filter (\<lambda>c. c \<noteq> ''__proto__'') (map category (transactions st))))
    \<and> categoryTotals food_books = [(''Food'', Num (Fin 50)), (''Books'', Num (Fin 10))]
    \<and> stats_topCategory (calculateStats h \<lparr> transactions = food_books, budgetCap = Fin 0 \<rparr>) = ''Food''
    \<and> categoryTotals tenths
        = [(''B'', Num (lit (3 / 10))), (''A'', Num (Fin (1351079888211149 / 4503599627370496)))]
    \<and> fless (lit (3 / 10)) (Fin (1351079888211149 / 4503599627370496))
    \<and> stats_topCategory (calculateStats h \<lparr> transactions = tenths, budgetCap = Fin 0 \<rparr>) = ''A''
    \<and> categoryTotals tied
        = [(''A'', Num (Fin (1351079888211149 / 2251799813685248))),
           (''B'', Num (Fin (1351079888211149 / 2251799813685248)))]
    \<and> stats_topCategory (calculateStats h \<lparr> transactions = tied, budgetCap = Fin 0 \<rparr>) = ''A''"
proof -
  obtain rc ra where run: "top_loop T K (''None'', Fin 0) = (rc, ra)"
    by (cases "top_loop T K (''None'', Fin 0)")
  then have winner: "winner = rc" by (simp add: winner_def T_def K_def stats_topCategory_eq)
  note res = top_loop_result [OF run]
  have sums: "(\<forall>t\<in>set (transactions st). finite_number (amount t)) \<longrightarrow>
           (\<forall>c. c \<notin> set Object_prototype_names \<longrightarrow>
              number_of T c = (if c \<in> category ` set (transactions st)
                               then Some (category_sum (transactions st) c) else None))"
    by (simp add: T_def number_of_categoryTotals)
  have none: "(\<forall>k\<in>set K. \<forall>a. number_of T k = Some a \<longrightarrow> \<not> fless (Fin 0) a) \<longrightarrow> winner = ''None''"
    using run winner by (auto simp: top_loop_unchanged)
  have some: "(\<exists>k\<in>set K. \<exists>a. number_of T k = Some a \<and> fless (Fin 0) a) \<longrightarrow>
         (\<exists>pre post a. K = pre @ winner # post \<and> number_of T winner = Some a \<and> fless (Fin 0) a
            \<and> (\<forall>k\<in>set K. \<forall>b. number_of T k = Some b \<longrightarrow> \<not> fless a b)
            \<and> (\<forall>k\<in>set pre. \<forall>b. number_of T k = Some b \<longrightarrow> \<not> fle a b))"
  proof
    assume "\<exists>k\<in>set K. \<exists>a. number_of T k = Some a \<and> fless (Fin 0) a"
    then obtain k a where k: "k \<in> set K" "number_of T k = Some a" "fless (Fin 0) a" by blast
    with res have "\<not> fless ra a" by blast
    with k have ne: "ra \<noteq> Fin 0" by auto
    with res have pos: "fless (Fin 0) ra" by simp
    from res ne obtain pre post where "K = pre @ rc # post" "number_of T rc = Some ra"
      "\<forall>k\<in>set pre. \<forall>a. number_of T k = Some a \<longrightarrow> \<not> fle ra a" by auto
    with res pos winner
    show "\<exists>pre post a. K = pre @ winner # post \<and> number_of T winner = Some a \<and> fless (Fin 0) a
            \<and> (\<forall>k\<in>set K. \<forall>b. number_of T k = Some b \<longrightarrow> \<not> fless a b)
            \<and> (\<forall>k\<in>set pre. \<forall>b. number_of T k = Some b \<longrightarrow> \<not> fle a b)" by blast
  qed
  have empty: "transactions st = [] \<longrightarrow> top_loop T K (''None'', Fin 0) = (''None'', Fin 0)"
    by (simp add: T_def K_def categoryTotals_def Object_keys_def)
  have order: "filter (\<lambda>k. \<not> is_array_index k) K
        = filter (\<lambda>k. \<not> is_array_index k)
            (first_occurrences (filter (\<lambda>c. c \<noteq> ''__proto__'') (map category (transactions st))))"
    by (simp add: K_def Object_keys_not_index keys_categoryTotals)
  have t1: "categoryTotals tenths
        = [(''B'', Num (lit (3 / 10))), (''A'', Num (Fin (1351079888211149 / 4503599627370496)))]"
    by (simp add: tenths_totals lit_tenths)
  have t2: "fless (lit (3 / 10)) (Fin (1351079888211149 / 4503599627370496))"
    by (simp add: lit_tenths)
  from sums none some empty order food_books_totals food_books_top t1 t2 tenths_top
    tied_totals tied_top
  show ?thesis by blast
qed

theorem calculateStats_topCategory_witness:
  "''Food'' \<in> set (Object_keys (categoryTotals food_books))
   \<and> number_of (categoryTotals food_books) ''Food'' = Some (Fin 50) \<and> fless (Fin 0) (Fin 50)
   \<and> ''Food'' \<notin> set Object_prototype_names
   \<and> ''Food'' \<in> category ` set food_books
   \<and> map amount food_books = [Fin 30, Fin 20, Fin 10]
   \<and> category_sum food_books ''Food'' = Fin 50
   \<and> stats_topCategory (calculateStats (example_host 0 example_clock)
        \<lparr> transactions = food_books, budgetCap = Fin 0 \<rparr>) = ''Food''
   \<and> Object_keys (categoryTotals []) = []
   \<and> stats_topCategory (calculateStats (example_host 0 example_clock)
        \<lparr> transactions = [], budgetCap = Fin 0 \<rparr>) = ''None''"
proof -
  have n: "''Food'' \<notin> set Object_prototype_names" by (simp add: Object_prototype_names_def)
  have c: "''Food'' \<in> category ` set food_books" by (simp add: food_books_def txn_def)
  have k: "''Food'' \<in> set (Object_keys (categoryTotals food_books))"
    by (simp add: food_books_totals two_keys)
  have v: "number_of (categoryTotals food_books) ''Food'' = Some (Fin 50)"
    by (simp add: food_books_totals number_of_def)
  have a: "map amount food_books = [Fin 30, Fin 20, Fin 10]"
    by (simp add: food_books_def txn_def)
  then have f: "\<forall>t\<in>set food_books. finite_number (amount t)"
    by (simp add: food_books_def txn_def finite_number_def)
  note th = calculateStats_topCategory [where st = "\<lparr> transactions = food_books, budgetCap = Fin 0 \<rparr>"
      and h = "example_host 0 example_clock"]
  from th [THEN conjunct1] f have "\<forall>c. c \<notin> set Object_prototype_names \<longrightarrow>
      number_of (categoryTotals food_books) c
      = (if c \<in> category ` set food_books then Some (category_sum food_books c) else None)"
    unfolding app_state.select_convs by blast
  with n c have "number_of (categoryTotals food_books) ''Food''
      = Some (category_sum food_books ''Food'')"
    by presburger
  with v have s: "category_sum food_books ''Food'' = Fin 50" by simp
  from th [THEN conjunct2, THEN conjunct2, THEN conjunct2, THEN conjunct2, THEN conjunct2,
      THEN conjunct2, THEN conjunct1]
  have w: "stats_topCategory (calculateStats (example_host 0 example_clock)
        \<lparr> transactions = food_books, budgetCap = Fin 0 \<rparr>) = ''Food''" .
  have e: "Object_keys (categoryTotals []) = []"
    by (simp add: categoryTotals_def Object_keys_def)
  note th0 = calculateStats_topCategory [where st = "\<lparr> transactions = [], budgetCap = Fin 0 \<rparr>"
      and h = "example_host 0 example_clock"]
  from th0 [THEN conjunct2, THEN conjunct1] e
  have z: "stats_topCategory (calculateStats (example_host 0 example_clock)
        \<lparr> transactions = [], budgetCap = Fin 0 \<rparr>) = ''None''"
    by simp
  from n c k v a s w e z show ?thesis by simp
qed

text \<open>
  Claim C3 as stated fails: a collection of one transaction of the category Food with the
  amount 0 is not empty and Food is its only category, with the total 0, yet
  \<open>topCategory\<close> is \<open>None\<close>.
\<close>

theorem calculateStats_topCategory_zero_total:
  "categoryTotals [txn ''Water'' (Fin 0) ''Food'' ''2025-09-29''] = [(''Food'', Num (Fin 0))]
   \<and> stats_topCategory (calculateStats (example_host 0 example_clock)
        \<lparr> transactions = [txn ''Water'' (Fin 0) ''Food'' ''2025-09-29''], budgetCap = Fin 0 \<rparr>)
      = ''None''
   \<and> ''None'' \<noteq> ''Food''"
proof -
  have t: "categoryTotals [txn ''Water'' (Fin 0) ''Food'' ''2025-09-29''] = [(''Food'', Num (Fin 0))]"
    by (simp add: table_eval)
  have "Object_keys [(''Food'', Num (Fin 0))] = [''Food'']"
    by (simp add: Object_keys_def is_array_index_def is_digit_def code_def)
  with t show ?thesis by (simp add: stats_topCategory_eq)
qed

subsection \<open>The budget cap\<close>

lemma stats_totalExpenses_eq:
  "stats_totalExpenses (calculateStats h st) = float_sum (map amount (transactions st))"
  by (simp add: calculateStats_def Let_def float_sum_def foldl_map)

lemma stats_budgetCap_eq: "stats_budgetCap (calculateStats h st) = budgetCap st"
  by (simp add: calculateStats_def Let_def)

lemmas cap_eval = renderBudgetCap_def Let_def stats_totalExpenses_eq stats_budgetCap_eq
  float_sum_def txn_def falsy_def fsub_def fle_def Math_min_def round64_eval

lemma cap_85:
  "renderBudgetCap h
     \<lparr> transactions = [txn ''Books'' (Fin 85) ''Books'' ''2025-09-29''], budgetCap = Fin 100 \<rparr>
     blank_page
   = blank_page\<lparr> capInput_value := Some (Fin 100), progress_width := Fin 85,
       status_textContent := WarningOnlyRemaining (Fin 15) (Fin 15),
       status_className := ''cap-status warning'',
       progress_className := ''cap-progress-bar warning'', status_aria_live := ''polite'' \<rparr>"
  by (simp add: cap_eval)

lemma cap_120:
  "renderBudgetCap h
     \<lparr> transactions = [txn ''Books'' (Fin 120) ''Books'' ''2025-09-29''], budgetCap = Fin 100 \<rparr>
     blank_page
   = blank_page\<lparr> capInput_value := Some (Fin 100), progress_width := Fin 100,
       status_textContent := BudgetExceededBy (fabs (Fin (- 20))),
       status_className := ''cap-status error'',
       progress_className := ''cap-progress-bar error'', status_aria_live := ''assertive'' \<rparr>"
  by (simp add: cap_eval)

text \<open>
  The amounts 99.33, 0.21 and 0.46 with the cap 100: the rounded running sum is the number
  just below 100, and the status is the warning.
\<close>

lemma cap_rounded_sum:
  "float_sum [lit (9933 / 100), lit (21 / 100), lit (23 / 50)]
     = Fin (7036874417766399 / 70368744177664)
   \<and> status_className (renderBudgetCap h
        \<lparr> transactions = [txn ''a'' (lit (9933 / 100)) ''A'' ''2025-09-29'',
                           txn ''b'' (lit (21 / 100)) ''A'' ''2025-09-29'',
                           txn ''c'' (lit (23 / 50)) ''A'' ''2025-09-29''],
           budgetCap = Fin 100 \<rparr> blank_page)
     = ''cap-status warning''"
proof -
  have l: "lit (9933 / 100) = Fin (6989727359167365 / 70368744177664)"
    "lit (21 / 100) = Fin (7566047373982433 / 36028797018963968)"
    "lit (23 / 50) = Fin (8286623314361713 / 18014398509481984)"
    by (simp_all add: round64_eval)
  have s: "float_sum [Fin (6989727359167365 / 70368744177664),
      Fin (7566047373982433 / 36028797018963968), Fin (8286623314361713 / 18014398509481984)]
     = Fin (7036874417766399 / 70368744177664)"
    by (simp add: float_sum_def round64_eval)
  have "fmul (fdiv (Fin (7036874417766399 / 70368744177664)) (Fin 100)) (Fin 100)
        = Fin (7036874417766399 / 70368744177664)"
    by (simp add: round64_eval)
  with s show ?thesis
    by (simp add: l renderBudgetCap_def Let_def stats_totalExpenses_eq stats_budgetCap_eq txn_def
        falsy_def fle_def float_sum_def round64_eval)
qed

lemma fle_80_100: "fle (Fin 100) p \<Longrightarrow> fle (Fin 80) p"
proof -
  assume "fle (Fin 100) p"
  moreover have "fle (Fin 80) (Fin 100)" by (simp add: fle_def)
  ultimately show ?thesis by (blast intro: fle_trans)
qed

text \<open>
  Claim C5, as the program has it. \<open>spent\<close> is the sum of all amounts, formed from left
  to right with every addition rounded, and the percentage is \<open>spent / cap * 100\<close> with the
  quotient and the product rounded. For every cap that is not 0 (and not \<open>NaN\<close>) the
  status is the over-budget one exactly when that percentage is at least 100, the warning
  one exactly when it is at least 80 and not at least 100, and the normal one exactly when
  it is not at least 80; the text shows \<open>cap - spent\<close>, rounded (its absolute value when
  over budget). For a positive cap and a finite \<open>spent\<close> the status is the over-budget one
  exactly when \<open>spent\<close> is at least the cap, and it is not the normal one when \<open>spent\<close>
  is at least four fifths of the cap. With the cap 0 (or \<open>NaN\<close>) the status is cleared
  and nothing is compared. With the cap 100, spent 85 gives the warning with 15 remaining,
  and spent 120 gives over-budget, by \<open>|-20|\<close>.
\<close>

theorem renderBudgetCap_classification:
  fixes h st page
  defines "cap \<equiv> budgetCap st"
  defines "spent \<equiv> float_sum (map amount (transactions st))"
  defines "percentage \<equiv> fmul (fdiv (float_sum (map amount (transactions st))) (budgetCap st)) (Fin 100)"
  defines "page' \<equiv> renderBudgetCap h st page"
  shows "stats_totalExpenses (calculateStats h st) = spent
    \<and> (\<not> falsy cap \<longrightarrow>
          (status_className page' = ''cap-status error'' \<longleftrightarrow> fle (Fin 100) percentage)
        \<and> (status_className page' = ''cap-status warning''
             \<longleftrightarrow> fle (Fin 80) percentage \<and> \<not> fle (Fin 100) percentage)
        \<and> (status_className page' = ''cap-status success'' \<longleftrightarrow> \<not> fle (Fin 80) percentage)
        \<and> status_textContent page'
           = (if fle (Fin 100) percentage then BudgetExceededBy (fabs (fsub cap spent))
              else if fle (Fin 80) percentage
                then WarningOnlyRemaining (fsub cap spent) (fsub (Fin 100) percentage)
              else Remaining (fsub cap spent) (fsub (Fin 100) percentage)))
    \<and> (\<forall>c s. cap = Fin c \<and> spent = Fin s \<and> 0 < c \<and> is_double c \<longrightarrow>
          (status_className page' = ''cap-status error'' \<longleftrightarrow> c \<le> s)
        \<and> (4 / 5 * c \<le> s \<longrightarrow> status_className page' \<noteq> ''cap-status success''))
    \<and> (falsy cap \<longrightarrow>
          page' = page\<lparr> capInput_value := None, status_textContent := NoText,
                         status_className := ''cap-status'', progress_width := Fin 0 \<rparr>)
    \<and> renderBudgetCap h
         \<lparr> transactions = [txn ''Books'' (Fin 85) ''Books'' ''2025-09-29''], budgetCap = Fin 100 \<rparr>
         blank_page
       = blank_page\<lparr> capInput_value := Some (Fin 100), progress_width := Fin 85,
           status_textContent := WarningOnlyRemaining (Fin 15) (Fin 15),
           status_className := ''cap-status warning'',
           progress_className := ''cap-progress-bar warning'', status_aria_live := ''polite'' \<rparr>
    \<and> renderBudgetCap h
         \<lparr> transactions = [txn ''Books'' (Fin 120) ''Books'' ''2025-09-29''], budgetCap = Fin 100 \<rparr>
         blank_page
       = blank_page\<lparr> capInput_value := Some (Fin 100), progress_width := Fin 100,
           status_textContent := BudgetExceededBy (fabs (Fin (- 20))),
           status_className := ''cap-status error'',
           progress_className := ''cap-progress-bar error'', status_aria_live := ''assertive'' \<rparr>"
proof -
  have total: "stats_totalExpenses (calculateStats h st) = spent"
    by (simp add: spent_def stats_totalExpenses_eq)
  have pct: "\<not> falsy cap \<longrightarrow>
          (status_className page' = ''cap-status error'' \<longleftrightarrow> fle (Fin 100) percentage)
        \<and> (status_className page' = ''cap-status warning''
             \<longleftrightarrow> fle (Fin 80) percentage \<and> \<not> fle (Fin 100) percentage)
        \<and> (status_className page' = ''cap-status success'' \<longleftrightarrow> \<not> fle (Fin 80) percentage)
        \<and> status_textContent page'
           = (if fle (Fin 100) percentage then BudgetExceededBy (fabs (fsub cap spent))
              else if fle (Fin 80) percentage
                then WarningOnlyRemaining (fsub cap spent) (fsub (Fin 100) percentage)
              else Remaining (fsub cap spent) (fsub (Fin 100) percentage))"
    using fle_80_100 [of percentage]
    by (auto simp: page'_def cap_def spent_def percentage_def renderBudgetCap_def Let_def
        stats_totalExpenses_eq stats_budgetCap_eq)
  have exact: "\<forall>c s. cap = Fin c \<and> spent = Fin s \<and> 0 < c \<and> is_double c \<longrightarrow>
          (status_className page' = ''cap-status error'' \<longleftrightarrow> c \<le> s)
        \<and> (4 / 5 * c \<le> s \<longrightarrow> status_className page' \<noteq> ''cap-status success'')"
  proof (intro allI impI)
    fix c s
    assume a: "cap = Fin c \<and> spent = Fin s \<and> 0 < c \<and> is_double c"
    then have nf: "\<not> falsy cap" by (simp add: falsy_def)
    from a have ds: "is_double s"
      using float_sum_is_double [of "map amount (transactions st)" s] by (simp add: spent_def)
    from a have p: "percentage = fmul (fdiv (Fin s) (Fin c)) (Fin 100)"
      by (simp add: percentage_def spent_def cap_def)
    have e: "fle (Fin 100) percentage \<longleftrightarrow> c \<le> s"
    proof
      assume over: "fle (Fin 100) percentage"
      show "c \<le> s"
      proof (rule ccontr)
        assume "\<not> c \<le> s"
        then have "s < c" by simp
        with a ds have "\<not> fle (Fin 100) (fmul (fdiv (Fin s) (Fin c)) (Fin 100))"
          by (intro percentage_below_100) simp_all
        with over p show False by simp
      qed
    next
      assume "c \<le> s"
      with a have "fle (Fin 100) (fmul (fdiv (Fin s) (Fin c)) (Fin 100))"
        by (intro percentage_at_least_100) simp_all
      then show "fle (Fin 100) percentage" unfolding p .
    qed
    have w: "4 / 5 * c \<le> s \<longrightarrow> fle (Fin 80) percentage"
    proof
      assume "4 / 5 * c \<le> s"
      with a have "fle (Fin 80) (fmul (fdiv (Fin s) (Fin c)) (Fin 100))"
        by (intro percentage_at_least_80) simp_all
      then show "fle (Fin 80) percentage" unfolding p .
    qed
    from pct nf e w
    show "(status_className page' = ''cap-status error'' \<longleftrightarrow> c \<le> s)
        \<and> (4 / 5 * c \<le> s \<longrightarrow> status_className page' \<noteq> ''cap-status success'')"
      by blast
  qed
  have zero: "falsy cap \<longrightarrow>
          page' = page\<lparr> capInput_value := None, status_textContent := NoText,
                         status_className := ''cap-status'', progress_width := Fin 0 \<rparr>"
    by (simp add: page'_def cap_def renderBudgetCap_def Let_def stats_budgetCap_eq)
  from total pct exact zero cap_85 [of h] cap_120 [of h] show ?thesis by blast
qed

theorem renderBudgetCap_classification_witness:
  "\<not> falsy (budgetCap \<lparr> transactions = [txn ''Books'' (Fin 85) ''Books'' ''2025-09-29''],
                        budgetCap = Fin 100 \<rparr>)
   \<and> float_sum (map amount [txn ''Books'' (Fin 85) ''Books'' ''2025-09-29'']) = Fin 85
   \<and> fmul (fdiv (Fin 85) (Fin 100)) (Fin 100) = Fin 85
   \<and> fle (Fin 80) (Fin 85) \<and> \<not> fle (Fin 100) (Fin 85)
   \<and> is_double 100 \<and> (0::rat) < 100 \<and> \<not> (100::rat) \<le> 85 \<and> (4 / 5 * 100 :: rat) \<le> 85
   \<and> status_className (renderBudgetCap (example_host 0 example_clock)
        \<lparr> transactions = [txn ''Books'' (Fin 85) ''Books'' ''2025-09-29''], budgetCap = Fin 100 \<rparr>
        blank_page)
      \<noteq> ''cap-status error''
   \<and> status_className (renderBudgetCap (example_host 0 example_clock)
        \<lparr> transactions = [txn ''Books'' (Fin 85) ''Books'' ''2025-09-29''], budgetCap = Fin 100 \<rparr>
        blank_page)
      = ''cap-status warning''
   \<and> falsy (Fin 0)
   \<and> renderBudgetCap (example_host 0 example_clock)
        \<lparr> transactions = [txn ''Books'' (Fin 85) ''Books'' ''2025-09-29''], budgetCap = Fin 0 \<rparr>
        blank_page
      = blank_page"
proof -
  have c: "\<not> falsy (budgetCap \<lparr> transactions = [txn ''Books'' (Fin 85) ''Books'' ''2025-09-29''],
                        budgetCap = Fin 100 \<rparr>)"
    by (simp add: falsy_def)
  have s: "float_sum (map amount [txn ''Books'' (Fin 85) ''Books'' ''2025-09-29'']) = Fin 85"
    by (simp add: float_sum_def txn_def round64_eval)
  have p: "fmul (fdiv (Fin 85) (Fin 100)) (Fin 100) = Fin 85"
    by (simp add: round64_eval)
  have l: "fle (Fin 80) (Fin 85) \<and> \<not> fle (Fin 100) (Fin 85)"
    by (simp add: fle_def)
  note th = renderBudgetCap_classification [where st = "\<lparr> transactions = [txn ''Books'' (Fin 85)
      ''Books'' ''2025-09-29''], budgetCap = Fin 100 \<rparr>" and h = "example_host 0 example_clock"
      and page = blank_page]
  note w = th [THEN conjunct2, THEN conjunct1, THEN mp, OF c, THEN conjunct2, THEN conjunct1]
  have d: "is_double 100" by (simp add: is_double_def round64_values)
  from th [THEN conjunct2, THEN conjunct2, THEN conjunct1] d
  have "status_className (renderBudgetCap (example_host 0 example_clock)
        \<lparr> transactions = [txn ''Books'' (Fin 85) ''Books'' ''2025-09-29''], budgetCap = Fin 100 \<rparr>
        blank_page) = ''cap-status error'' \<longleftrightarrow> (100::rat) \<le> 85"
    by (simp add: float_sum_def txn_def round64_eval)
  moreover have f: "falsy (Fin 0)" by (simp add: falsy_def)
  note th0 = renderBudgetCap_classification [where st = "\<lparr> transactions = [txn ''Books'' (Fin 85)
      ''Books'' ''2025-09-29''], budgetCap = Fin 0 \<rparr>" and h = "example_host 0 example_clock"
      and page = blank_page]
  from th0 [THEN conjunct2, THEN conjunct2, THEN conjunct2, THEN conjunct1] f
  have "renderBudgetCap (example_host 0 example_clock)
        \<lparr> transactions = [txn ''Books'' (Fin 85) ''Books'' ''2025-09-29''], budgetCap = Fin 0 \<rparr>
        blank_page
      = blank_page"
    by (simp add: blank_page_def)
  ultimately show ?thesis using w s p l c d f
    by (simp add: float_sum_def txn_def round64_eval)
qed

text \<open>
  Claim C5 as stated fails at the threshold of 80 percent. The amount 2.4 is the number
  just below 2.4, so with the cap 3 the total spent is below 80 percent of the cap; the
  rounded quotient times 100 rounds to 80, and the status is the warning, not the normal
  one.
\<close>

theorem renderBudgetCap_rounded_threshold:
  "lit (12 / 5) = Fin (5404319552844595 / 2251799813685248)
   \<and> float_sum [lit (12 / 5)] = Fin (5404319552844595 / 2251799813685248)
   \<and> (5404319552844595 / 2251799813685248 :: rat) < 80 / 100 * 3
   \<and> fmul (fdiv (Fin (5404319552844595 / 2251799813685248)) (Fin 3)) (Fin 100) = Fin 80
   \<and> status_className (renderBudgetCap (example_host 0 example_clock)
        \<lparr> transactions = [txn ''Paper'' (lit (12 / 5)) ''Books'' ''2025-09-29''],
           budgetCap = Fin 3 \<rparr> blank_page)
      = ''cap-status warning''
   \<and> ''cap-status warning'' \<noteq> ''cap-status success''"
proof -
  have l: "lit (12 / 5) = Fin (5404319552844595 / 2251799813685248)"
    by (simp add: round64_eval)
  have s: "float_sum [Fin (5404319552844595 / 2251799813685248)]
           = Fin (5404319552844595 / 2251799813685248)"
    by (simp add: float_sum_def round64_eval)
  have b: "(5404319552844595 / 2251799813685248 :: rat) < 80 / 100 * 3" by simp
  have p: "fmul (fdiv (Fin (5404319552844595 / 2251799813685248)) (Fin 3)) (Fin 100) = Fin 80"
    by (simp add: round64_eval)
  from s p have c: "status_className (renderBudgetCap (example_host 0 example_clock)
        \<lparr> transactions = [txn ''Paper'' (Fin (5404319552844595 / 2251799813685248)) ''Books''
             ''2025-09-29''], budgetCap = Fin 3 \<rparr> blank_page)
      = ''cap-status warning''"
    by (simp add: renderBudgetCap_def Let_def stats_totalExpenses_eq stats_budgetCap_eq txn_def
        falsy_def fle_def float_sum_def round64_eval)
  from l s b p c show ?thesis by simp
qed


subsection \<open>The week total\<close>

lemma example_host_fields:
  "parse_pattern (example_host z c) = parse_terms"
  "Number_toString (example_host z c) = number_text"
  "Date_parse (example_host z c) = parse_iso_date"
  "localeCompare (example_host z c) = compare_code_units"
  "LocalTZA (example_host z c) = z"
  "Date_now (example_host z c) = c"
  by (simp_all add: example_host_def)

lemma stats_weekTotal_eq:
  "stats_weekTotal (calculateStats h st)
   = foldl (\<lambda>s t. if in_last_week h t then fadd s (amount t) else s) (Fin 0) (transactions st)"
  by (simp add: calculateStats_def Let_def)

lemma stats_dailyTotals_eq:
  "stats_dailyTotals (calculateStats h st)
   = foldl (\<lambda>obj t. add_to_day (date t) (amount t) obj) (dailyTotals_seed h) (transactions st)"
  by (simp add: calculateStats_def Let_def)

lemma parse_example_dates:
  "parse_iso_date ''2025-10-05'' = Some 1759622400000"
  "parse_iso_date ''2025-09-22'' = Some 1758499200000"
  by code_simp+

lemma day_before_eq: "day_before h i = Date_now h - i * msPerDay"
  by (simp add: day_before_def setDate_shift)

lemma in_last_week_eq:
  "in_last_week h t
   \<longleftrightarrow> (case Date_parse h (date t) of None \<Rightarrow> False | Some d \<Rightarrow> Date_now h - 7 * msPerDay \<le> d)"
  by (simp add: in_last_week_def day_before_eq)

lemma foldl_filter_amounts:
  "foldl (\<lambda>s t. if P t then fadd s (amount t) else s) a txns
   = foldl fadd a (map amount (filter P txns))"
  by (induction txns arbitrary: a) simp_all

lemma seven_days_ago:
  "day_before (example_host 0 example_clock) 7 = 1758537000000"
  "day_before (example_host 0 example_midnight) 7 = 1758499200000"
  "day_before (example_host 0 (example_midnight + 1)) 7 = 1758499200001"
  by (simp_all add: day_before_eq example_host_fields example_clock_def example_midnight_def
      msPerDay_def)

text \<open>
  What the loop computes: the week total is the sum of the amounts of the transactions
  whose date parses to an instant not earlier than seven days (of 24 hours) before the
  clock; there is no upper bound.
\<close>

lemma weekTotal_window:
  "stats_weekTotal (calculateStats h st)
   = float_sum (map amount (filter (in_last_week h) (transactions st)))"
  by (simp add: stats_weekTotal_eq foldl_filter_amounts float_sum_def)

lemma day_keys:
  "iso_date (day_before (example_host 0 example_clock) 6) = ''2025-09-23''"
  "iso_date (day_before (example_host 0 example_clock) 5) = ''2025-09-24''"
  "iso_date (day_before (example_host 0 example_clock) 4) = ''2025-09-25''"
  "iso_date (day_before (example_host 0 example_clock) 3) = ''2025-09-26''"
  "iso_date (day_before (example_host 0 example_clock) 2) = ''2025-09-27''"
  "iso_date (day_before (example_host 0 example_clock) 1) = ''2025-09-28''"
  "iso_date (day_before (example_host 0 example_clock) 0) = ''2025-09-29''"
  by code_simp+

lemma example_seed:
  "dailyTotals_seed (example_host 0 example_clock)
   = [(''2025-09-23'', Fin 0), (''2025-09-24'', Fin 0), (''2025-09-25'', Fin 0),
      (''2025-09-26'', Fin 0), (''2025-09-27'', Fin 0), (''2025-09-28'', Fin 0),
      (''2025-09-29'', Fin 0)]"
  by (simp add: dailyTotals_seed_def day_keys assign_def)

lemma week_future_date:
  "stats_weekTotal (calculateStats (example_host 0 example_clock)
      \<lparr> transactions = [txn ''Rent'' (Fin 50) ''Housing'' ''2025-10-05''], budgetCap = Fin 0 \<rparr>)
   = Fin 50"
  by (simp add: stats_weekTotal_eq in_last_week_def seven_days_ago txn_def parse_example_dates
      example_host_fields round64_eval)

lemma days_future_date:
  "stats_dailyTotals (calculateStats (example_host 0 example_clock)
      \<lparr> transactions = [txn ''Rent'' (Fin 50) ''Housing'' ''2025-10-05''], budgetCap = Fin 0 \<rparr>)
   = [(''2025-09-23'', Fin 0), (''2025-09-24'', Fin 0), (''2025-09-25'', Fin 0),
      (''2025-09-26'', Fin 0), (''2025-09-27'', Fin 0), (''2025-09-28'', Fin 0),
      (''2025-09-29'', Fin 0)]"
  by (simp add: stats_dailyTotals_eq example_seed add_to_day_def txn_def)

lemma week_at_midnight:
  "stats_weekTotal (calculateStats (example_host 0 example_midnight)
      \<lparr> transactions = [txn ''Tea'' (Fin 4) ''Food'' ''2025-09-22''], budgetCap = Fin 0 \<rparr>)
   = Fin 4"
  by (simp add: stats_weekTotal_eq in_last_week_def seven_days_ago txn_def parse_example_dates
      example_host_fields round64_eval)

lemma week_after_midnight:
  "stats_weekTotal (calculateStats (example_host 0 (example_midnight + 1))
      \<lparr> transactions = [txn ''Tea'' (Fin 4) ''Food'' ''2025-09-22''], budgetCap = Fin 0 \<rparr>)
   = Fin 0"
  by (simp add: stats_weekTotal_eq in_last_week_def seven_days_ago txn_def parse_example_dates
      example_host_fields)

text \<open>
  Claim C2 does not hold of the program. On 2025-09-29 at 10:30 UTC, a single
  transaction of 50 dated 2025-10-05 gives the week total 50, although its date is not one
  of the seven dates 2025-09-23 to 2025-09-29, which are the keys of \<open>dailyTotals\<close> and
  all hold 0. And a transaction of 4 dated 2025-09-22 is counted at midnight of
  2025-09-29 and not counted one millisecond later.
\<close>

theorem weekTotal_counts_future_date:
  "stats_weekTotal (calculateStats (example_host 0 example_clock)
      \<lparr> transactions = [txn ''Rent'' (Fin 50) ''Housing'' ''2025-10-05''], budgetCap = Fin 0 \<rparr>)
     = Fin 50
   \<and> stats_dailyTotals (calculateStats (example_host 0 example_clock)
      \<lparr> transactions = [txn ''Rent'' (Fin 50) ''Housing'' ''2025-10-05''], budgetCap = Fin 0 \<rparr>)
     = [(''2025-09-23'', Fin 0), (''2025-09-24'', Fin 0), (''2025-09-25'', Fin 0),
        (''2025-09-26'', Fin 0), (''2025-09-27'', Fin 0), (''2025-09-28'', Fin 0),
        (''2025-09-29'', Fin 0)]
   \<and> stats_weekTotal (calculateStats (example_host 0 example_midnight)
      \<lparr> transactions = [txn ''Tea'' (Fin 4) ''Food'' ''2025-09-22''], budgetCap = Fin 0 \<rparr>) = Fin 4
   \<and> stats_weekTotal (calculateStats (example_host 0 (example_midnight + 1))
      \<lparr> transactions = [txn ''Tea'' (Fin 4) ''Food'' ''2025-09-22''], budgetCap = Fin 0 \<rparr>) = Fin 0
   \<and> iso_date example_midnight = ''2025-09-29'' \<and> iso_date (example_midnight + 1) = ''2025-09-29''
   \<and> iso_date example_clock = ''2025-09-29''"
proof -
  have "iso_date example_midnight = ''2025-09-29''" "iso_date (example_midnight + 1) = ''2025-09-29''"
    "iso_date example_clock = ''2025-09-29''"
    by code_simp+
  with week_future_date days_future_date week_at_midnight week_after_midnight
  show ?thesis by blast
qed

end
